theory Spec2Isabelle
  imports Main
begin

section \<open>Binary64 floating point, as numpy and Python compute with it\<close>

text \<open>
  Every number of \<^verbatim>\<open>boundary_simple.py\<close> is an IEEE-754 binary64 value (a Python
  \<^verbatim>\<open>float\<close>, a numpy \<^verbatim>\<open>float64\<close>). \<open>Finite m e\<close> denotes the number \<open>m * 2 ^ e\<close>,
  written the way the format stores it: a normal number has \<open>2 ^ 52 \<le> \<bar>m\<bar> < 2 ^ 53\<close>
  and \<open>- 1074 \<le> e \<le> 971\<close>, a subnormal number or zero has \<open>\<bar>m\<bar> < 2 ^ 52\<close> and
  \<open>e = - 1074\<close>. The two zeros of the format are one value here: the program never
  divides by a zero and never looks at a sign bit, and \<open>- 0.0 == 0.0\<close> in every
  comparison it makes.
\<close>

datatype float64 = Finite int int | PInf | NInf | NaN

definition canonical :: "int \<Rightarrow> int \<Rightarrow> bool" where
  "canonical m e \<longleftrightarrow>
     (2 ^ 52 \<le> \<bar>m\<bar> \<and> \<bar>m\<bar> < 2 ^ 53 \<and> - 1074 \<le> e \<and> e \<le> 971) \<or> (\<bar>m\<bar> < 2 ^ 52 \<and> e = - 1074)"

fun is_float64 :: "float64 \<Rightarrow> bool" where
  "is_float64 (Finite m e) = canonical m e"
| "is_float64 _ = True"

fun is_finite :: "float64 \<Rightarrow> bool" where
  "is_finite (Finite m e) = True"
| "is_finite _ = False"

fun is_nan :: "float64 \<Rightarrow> bool" where
  "is_nan NaN = True"
| "is_nan _ = False"

text \<open>The number of binary digits of a positive integer (0 for the others).\<close>

function bits :: "int \<Rightarrow> nat" where
  "bits n = (if 2 ^ 16 \<le> n then 16 + bits (n div 2 ^ 16)
             else if 1 \<le> n then 1 + bits (n div 2)
             else 0)"
  by pat_completeness auto
termination
  by (relation "measure nat") auto

declare bits.simps [simp del]

text \<open>\<open>rne n d\<close>: the integer nearest to \<open>n / d\<close>, a tie going to the even one.\<close>

definition rne :: "int \<Rightarrow> int \<Rightarrow> int" where
  "rne n d = (if d < 2 * (n mod d) \<or> (2 * (n mod d) = d \<and> odd (n div d))
              then n div d + 1 else n div d)"

text \<open>
  \<open>flog2 n d\<close>: the integer part of the binary logarithm of \<open>n / d\<close>, for \<open>0 < n\<close> and
  \<open>0 < d\<close>. The difference \<open>l\<close> of the bit lengths is that number or one more.
\<close>

definition flog2_adjust :: "int \<Rightarrow> int \<Rightarrow> int \<Rightarrow> int" where
  "flog2_adjust n d l = (if d * 2 ^ nat l \<le> n * 2 ^ nat (- l) then l else l - 1)"

definition flog2 :: "int \<Rightarrow> int \<Rightarrow> int" where
  "flog2 n d = flog2_adjust n d (int (bits n) - int (bits d))"

text \<open>
  \<open>round64 n d e\<close> rounds the exact number \<open>n / d * 2 ^ e\<close> (\<open>0 < d\<close>) to binary64,
  to nearest with ties to even. The result's exponent \<open>t\<close> is the one that leaves 53
  significant bits, and not below \<open>- 1074\<close> (\<open>round64\<close>); the significand is the
  magnitude divided by \<open>2 ^ t\<close>, rounded to an integer (\<open>round_at\<close>); a significand
  that reached \<open>2 ^ 53\<close> moves to the next exponent (\<open>renorm\<close>); an exponent above 971
  is an infinity (\<open>pack\<close>).
\<close>

definition pack :: "bool \<Rightarrow> int \<Rightarrow> int \<Rightarrow> float64" where
  "pack neg s t =
     (if 971 < t then (if neg then NInf else PInf) else Finite (if neg then - s else s) t)"

definition renorm :: "bool \<Rightarrow> int \<Rightarrow> int \<Rightarrow> float64" where
  "renorm neg s t = (if s = 2 ^ 53 then pack neg (2 ^ 52) (t + 1) else pack neg s t)"

definition round_at :: "bool \<Rightarrow> int \<Rightarrow> int \<Rightarrow> int \<Rightarrow> int \<Rightarrow> float64" where
  "round_at neg a d e t = renorm neg (rne (a * 2 ^ nat (e - t)) (d * 2 ^ nat (t - e))) t"

definition round64 :: "int \<Rightarrow> int \<Rightarrow> int \<Rightarrow> float64" where
  "round64 n d e =
     (if n = 0 then Finite 0 (- 1074)
      else round_at (n < 0) \<bar>n\<bar> d e (max (flog2 \<bar>n\<bar> d + e - 52) (- 1074)))"

text \<open>
  \<open>dbl p q\<close> is the value of a decimal literal: the binary64 number nearest to \<open>p / q\<close>
  (\<open>0 < q\<close>), so \<open>dbl 15 100\<close> is what Python reads from \<^verbatim>\<open>0.15\<close>.
\<close>

definition dbl :: "int \<Rightarrow> int \<Rightarrow> float64" where
  "dbl p q = round64 p q 0"

fun fneg :: "float64 \<Rightarrow> float64" where
  "fneg (Finite m e) = Finite (- m) e"
| "fneg PInf = NInf"
| "fneg NInf = PInf"
| "fneg NaN = NaN"

fun fadd :: "float64 \<Rightarrow> float64 \<Rightarrow> float64" where
  "fadd (Finite m1 e1) (Finite m2 e2) =
     (if m1 = 0 then round64 m2 1 e2
      else if m2 = 0 then round64 m1 1 e1
      else round64 (m1 * 2 ^ nat (e1 - min e1 e2) + m2 * 2 ^ nat (e2 - min e1 e2)) 1 (min e1 e2))"
| "fadd NaN y = NaN"
| "fadd x NaN = NaN"
| "fadd PInf NInf = NaN"
| "fadd NInf PInf = NaN"
| "fadd PInf y = PInf"
| "fadd NInf y = NInf"
| "fadd x PInf = PInf"
| "fadd x NInf = NInf"

definition fsub :: "float64 \<Rightarrow> float64 \<Rightarrow> float64" where
  "fsub x y = fadd x (fneg y)"

fun fsgn :: "float64 \<Rightarrow> int" where
  "fsgn (Finite m e) = sgn m"
| "fsgn PInf = 1"
| "fsgn NInf = - 1"
| "fsgn NaN = 0"

definition fmul :: "float64 \<Rightarrow> float64 \<Rightarrow> float64" where
  "fmul x y =
     (case (x, y) of
        (Finite m1 e1, Finite m2 e2) \<Rightarrow> round64 (m1 * m2) 1 (e1 + e2)
      | _ \<Rightarrow> (if fsgn x * fsgn y = 0 then NaN else if 0 < fsgn x * fsgn y then PInf else NInf))"

definition fdiv :: "float64 \<Rightarrow> float64 \<Rightarrow> float64" where
  "fdiv x y =
     (case (x, y) of
        (Finite m1 e1, Finite m2 e2) \<Rightarrow>
          (if m2 = 0 then (if m1 = 0 then NaN else if 0 < m1 then PInf else NInf)
           else round64 (m1 * sgn m2) \<bar>m2\<bar> (e1 - e2))
      | (Finite m1 e1, NaN) \<Rightarrow> NaN
      | (Finite m1 e1, _) \<Rightarrow> Finite 0 (- 1074)
      | (NaN, _) \<Rightarrow> NaN
      | (_, Finite m2 e2) \<Rightarrow> (if (x = PInf) = (0 \<le> m2) then PInf else NInf)
      | _ \<Rightarrow> NaN)"

text \<open>The comparisons \<^verbatim>\<open><\<close> and \<^verbatim>\<open>>\<close>: false whenever an operand is a NaN.\<close>

fun flt :: "float64 \<Rightarrow> float64 \<Rightarrow> bool" where
  "flt (Finite m1 e1) (Finite m2 e2) =
     (if m1 = 0 then 0 < m2
      else if m2 = 0 then m1 < 0
      else m1 * 2 ^ nat (e1 - min e1 e2) < m2 * 2 ^ nat (e2 - min e1 e2))"
| "flt NaN y = False"
| "flt x NaN = False"
| "flt x NInf = False"
| "flt PInf y = False"
| "flt NInf y = True"
| "flt x PInf = True"

definition fgt :: "float64 \<Rightarrow> float64 \<Rightarrow> bool" where
  "fgt x y = flt y x"

text \<open>
  The comparison \<^verbatim>\<open><=\<close>. The program does not use it; the containment of one interval in
  another is stated with it.
\<close>

fun fle :: "float64 \<Rightarrow> float64 \<Rightarrow> bool" where
  "fle (Finite m1 e1) (Finite m2 e2) =
     (if m1 = 0 then 0 \<le> m2
      else if m2 = 0 then m1 \<le> 0
      else m1 * 2 ^ nat (e1 - min e1 e2) \<le> m2 * 2 ^ nat (e2 - min e1 e2))"
| "fle NaN y = False"
| "fle x NaN = False"
| "fle NInf y = True"
| "fle x PInf = True"
| "fle x NInf = False"
| "fle PInf y = False"

text \<open>
  \<open>units m e\<close> is the number \<open>m * 2 ^ e\<close> counted in units of \<open>2 ^ - 1074\<close>, the spacing of
  the smallest binary64 numbers: an integer for every \<open>e\<close> from \<open>- 1074\<close> on.
\<close>

definition units :: "int \<Rightarrow> int \<Rightarrow> int" where
  "units m e = m * 2 ^ nat (e + 1074)"

text \<open>The conversion of a C integer to binary64 (exact below \<open>2 ^ 53\<close>).\<close>

definition of_intp :: "int \<Rightarrow> float64" where
  "of_intp i = round64 i 1 0"

text \<open>\<open>ceil\<close> of a finite number, as an integer.\<close>

definition ceil_int :: "int \<Rightarrow> int \<Rightarrow> int" where
  "ceil_int m e =
     (if m = 0 then 0 else if 0 \<le> e then m * 2 ^ nat e else - ((- m) div 2 ^ nat (- e)))"

text \<open>The literals of the program.\<close>

definition padding :: float64 where
  "padding = dbl 15 100"

definition res :: float64 where
  "res = dbl 1 100"

definition half :: float64 where
  "half = dbl 5 10"

section \<open>numpy: reductions, \<^verbatim>\<open>arange\<close>, \<^verbatim>\<open>meshgrid\<close>, \<^verbatim>\<open>ravel\<close>, \<^verbatim>\<open>reshape\<close>\<close>

text \<open>
  The exceptions that leave \<^verbatim>\<open>plot_decision_boundary\<close>: the ones numpy raises in the
  function's own lines (\<open>Numpy\<close>), and whatever the caller's \<^verbatim>\<open>f\<close> or the plotting
  library raises (\<open>Other\<close>, carrying the exception).
\<close>

datatype np_error =
    ZeroSizeReduction   \<comment> \<open>ValueError: zero-size array to reduction operation\<close>
  | ArangeLength        \<comment> \<open>arange cannot compute its length (NaN, or beyond the index type)\<close>
  | ReshapeSize         \<comment> \<open>ValueError: cannot reshape array of size n into shape (r, c)\<close>

datatype 'x exn = Numpy np_error | Other 'x

text \<open>\<^verbatim>\<open>np.minimum\<close> and \<^verbatim>\<open>np.maximum\<close> of two numbers: a NaN wins.\<close>

definition fminimum :: "float64 \<Rightarrow> float64 \<Rightarrow> float64" where
  "fminimum a b = (if flt a b \<or> is_nan a then a else b)"

definition fmaximum :: "float64 \<Rightarrow> float64 \<Rightarrow> float64" where
  "fmaximum a b = (if fgt a b \<or> is_nan a then a else b)"

text \<open>\<^verbatim>\<open>a.min()\<close> and \<^verbatim>\<open>a.max()\<close> of a one-dimensional array: an empty one raises.\<close>

fun amin :: "float64 list \<Rightarrow> np_error + float64" where
  "amin [] = Inl ZeroSizeReduction"
| "amin (v # vs) = Inr (foldl fminimum v vs)"

fun amax :: "float64 list \<Rightarrow> np_error + float64" where
  "amax [] = Inl ZeroSizeReduction"
| "amax (v # vs) = Inr (foldl fmaximum v vs)"

text \<open>
  \<^verbatim>\<open>np.arange(start, stop, step)\<close> on binary64 arguments. Its length is
  \<open>ceil ((stop - start) / step)\<close>, computed in binary64; element 0 is \<open>start\<close>, element 1
  is \<open>start + step\<close>, and element \<open>i\<close> is \<open>start + i * delta\<close> with
  \<open>delta = (start + step) - start\<close>. A length that is a NaN or an infinity raises, and
  so does one outside the range from \<open>- 2 ^ 63\<close> to \<open>2 ^ 63\<close>, both ends included: numpy
  compares with the bounds of the 64-bit index type converted to binary64, and the upper
  one converts to \<open>2 ^ 63\<close>. The length is then converted to the index type (\<open>to_intp\<close>):
  \<open>2 ^ 63\<close> itself does not fit and becomes \<open>- 2 ^ 63\<close>, as the conversion does on
  x86-64. A length of zero or less gives the empty array. Memory is not part of the
  model: a length is never too long to allocate.
\<close>

definition to_intp :: "int \<Rightarrow> int" where
  "to_intp n = (if n = 2 ^ 63 then - (2 ^ 63) else n)"

definition arange_item :: "float64 \<Rightarrow> float64 \<Rightarrow> nat \<Rightarrow> float64" where
  "arange_item start step i =
     (let next = fadd start step; delta = fsub next start
      in if i = 0 then start else if i = 1 then next
         else fadd start (fmul (of_intp (int i)) delta))"

definition arange_length :: "float64 \<Rightarrow> float64 \<Rightarrow> float64 \<Rightarrow> np_error + nat" where
  "arange_length start stop step =
     (case fdiv (fsub stop start) step of
        Finite m e \<Rightarrow>
          (if ceil_int m e < - (2 ^ 63) \<or> 2 ^ 63 < ceil_int m e then Inl ArangeLength
           else Inr (nat (to_intp (ceil_int m e))))
      | _ \<Rightarrow> Inl ArangeLength)"

definition arange :: "float64 \<Rightarrow> float64 \<Rightarrow> float64 \<Rightarrow> np_error + float64 list" where
  "arange start stop step =
     (case arange_length start stop step of
        Inl err \<Rightarrow> Inl err
      | Inr n \<Rightarrow> Inr (map (arange_item start step) [0 ..< n]))"

text \<open>A two-dimensional array: its shape (rows, columns) and its items in row-major order.\<close>

record 'a ndarray =
  shape :: "nat \<times> nat"
  data :: "'a list"

definition item :: "'a ndarray \<Rightarrow> nat \<Rightarrow> nat \<Rightarrow> 'a" where
  "item a j i = data a ! (j * snd (shape a) + i)"

definition ravel :: "'a ndarray \<Rightarrow> 'a list" where
  "ravel a = data a"

text \<open>\<^verbatim>\<open>np.meshgrid(xs, ys)\<close>: two arrays of shape \<open>(len ys, len xs)\<close>; row \<open>j\<close> of the
  first is \<open>xs\<close>, row \<open>j\<close> of the second repeats \<open>ys[j]\<close>.\<close>

definition meshgrid :: "'a list \<Rightarrow> 'a list \<Rightarrow> 'a ndarray \<times> 'a ndarray" where
  "meshgrid xs ys =
     (\<lparr>shape = (length ys, length xs), data = concat (map (\<lambda>y. xs) ys)\<rparr>,
      \<lparr>shape = (length ys, length xs), data = concat (map (\<lambda>y. map (\<lambda>x. y) xs) ys)\<rparr>)"

text \<open>\<^verbatim>\<open>np.array(Z).reshape(sh)\<close>: raises unless the sizes agree.\<close>

definition reshape :: "'a list \<Rightarrow> nat \<times> nat \<Rightarrow> np_error + 'a ndarray" where
  "reshape zs sh =
     (if length zs = fst sh * snd sh then Inr \<lparr>shape = sh, data = zs\<rparr> else Inl ReshapeSize)"

section \<open>\<^verbatim>\<open>plot_decision_boundary\<close>\<close>

text \<open>
  \<open>X\<close> is the array of points, one pair per row, so \<^verbatim>\<open>X[:,0]\<close> is \<open>map fst X\<close>; \<open>Y\<close> is the
  sequence of labels. The caller's \<open>f\<close> may keep state and may raise: it takes the
  coordinate vector and its state, and returns a score or an exception, and its new
  state. The plotting library is a parameter \<open>plt\<close> of the same kind: it receives each
  call the function makes, with its arguments, and answers on its own state.
\<close>

datatype cmap = Spectral

datatype 'l draw_call =
    Figure nat nat
  | Contourf "float64 ndarray" "float64 ndarray" "int ndarray" cmap
  | Scatter "float64 list" "float64 list" nat "'l list" cmap

type_synonym ('x, 's) classifier = "float64 list \<Rightarrow> 's \<Rightarrow> ('x exn + float64) \<times> 's"

type_synonym ('x, 'l, 'p) backend = "'l draw_call \<Rightarrow> 'p \<Rightarrow> ('x exn + unit) \<times> 'p"

text \<open>Lines 12 to 23: the bounds of the data on each axis, then the padding.\<close>

definition padded_bounds ::
  "(float64 \<times> float64) list \<Rightarrow> np_error + (float64 \<times> float64 \<times> float64 \<times> float64)" where
  "padded_bounds X =
     (case amin (map fst X) of Inl err \<Rightarrow> Inl err | Inr x_min \<Rightarrow>
      case amax (map fst X) of Inl err \<Rightarrow> Inl err | Inr x_max \<Rightarrow>
      case amin (map snd X) of Inl err \<Rightarrow> Inl err | Inr y_min \<Rightarrow>
      case amax (map snd X) of Inl err \<Rightarrow> Inl err | Inr y_max \<Rightarrow>
        let x_range = fsub x_max x_min;
            y_range = fsub y_max y_min;
            x_min' = fsub x_min (fmul x_range padding);
            y_min' = fsub y_min (fmul y_range padding);
            x_max' = fadd x_max (fmul x_range padding);
            y_max' = fadd y_max (fmul y_range padding)
        in Inr (x_min', x_max', y_min', y_max'))"

text \<open>
  The padded bounds of one axis, from its raw bounds: what lines 16 to 23 compute for
  \<open>x\<close> and for \<open>y\<close>.
\<close>

definition pad_lo :: "float64 \<Rightarrow> float64 \<Rightarrow> float64" where
  "pad_lo lo hi = fsub lo (fmul (fsub hi lo) padding)"

definition pad_hi :: "float64 \<Rightarrow> float64 \<Rightarrow> float64" where
  "pad_hi lo hi = fadd hi (fmul (fsub hi lo) padding)"

text \<open>Points whose coordinates are all binary64 numbers: no NaN, no infinity.\<close>

definition finite_points :: "(float64 \<times> float64) list \<Rightarrow> bool" where
  "finite_points X \<longleftrightarrow>
     list_all (\<lambda>(x, y). is_float64 x \<and> is_finite x \<and> is_float64 y \<and> is_finite y) X"

text \<open>Line 26: the two sample axes and their mesh.\<close>

definition grid ::
  "(float64 \<times> float64) list \<Rightarrow> np_error + (float64 ndarray \<times> float64 ndarray)" where
  "grid X =
     (case padded_bounds X of Inl err \<Rightarrow> Inl err | Inr (x_min, x_max, y_min, y_max) \<Rightarrow>
      case arange x_min x_max res of Inl err \<Rightarrow> Inl err | Inr xs \<Rightarrow>
      case arange y_min y_max res of Inl err \<Rightarrow> Inl err | Inr ys \<Rightarrow>
        Inr (meshgrid xs ys))"

text \<open>Lines 33 to 35: the loop over the zipped coordinates, appending one label per call.\<close>

fun classify_loop ::
  "('x, 's) classifier \<Rightarrow> (float64 \<times> float64) list \<Rightarrow> int list \<Rightarrow> 's \<Rightarrow> ('x exn + int list) \<times> 's" where
  "classify_loop f [] Z s = (Inr Z, s)"
| "classify_loop f ((x_i, y_i) # ps) Z s =
     (case f [x_i, y_i] s of
        (Inl err, s') \<Rightarrow> (Inl err, s')
      | (Inr r, s') \<Rightarrow> classify_loop f ps (Z @ [if fgt r half then 1 else 0]) s')"

text \<open>Lines 12 to 38: everything before the first drawing call.\<close>

definition label_grid ::
  "('x, 's) classifier \<Rightarrow> (float64 \<times> float64) list \<Rightarrow> 's \<Rightarrow>
     ('x exn + (float64 ndarray \<times> float64 ndarray \<times> int ndarray)) \<times> 's" where
  "label_grid f X s =
     (case grid X of Inl err \<Rightarrow> (Inl (Numpy err), s) | Inr (xx, yy) \<Rightarrow>
      case classify_loop f (zip (ravel xx) (ravel yy)) [] s of
        (Inl err, s') \<Rightarrow> (Inl err, s')
      | (Inr Z, s') \<Rightarrow>
          (case reshape Z (shape xx) of
             Inl err \<Rightarrow> (Inl (Numpy err), s')
           | Inr Z' \<Rightarrow> (Inr (xx, yy, Z'), s')))"

text \<open>The whole function: the result (\<open>None\<close>, or the exception), and the two states.\<close>

definition plot_decision_boundary ::
  "('x, 's) classifier \<Rightarrow> ('x, 'l, 'p) backend \<Rightarrow> (float64 \<times> float64) list \<Rightarrow> 'l list \<Rightarrow>
     's \<Rightarrow> 'p \<Rightarrow> ('x exn + unit) \<times> 's \<times> 'p" where
  "plot_decision_boundary f plt X Y s p =
     (case label_grid f X s of
        (Inl err, s') \<Rightarrow> (Inl err, s', p)
      | (Inr (xx, yy, Z), s') \<Rightarrow>
          (case plt (Figure 8 6) p of
             (Inl err, p1) \<Rightarrow> (Inl err, s', p1)
           | (Inr u, p1) \<Rightarrow>
               (case plt (Contourf xx yy Z Spectral) p1 of
                  (Inl err, p2) \<Rightarrow> (Inl err, s', p2)
                | (Inr u, p2) \<Rightarrow>
                    (case plt (Scatter (map fst X) (map snd X) 35 Y Spectral) p2 of
                       (r, p3) \<Rightarrow> (r, s', p3)))))"

text \<open>
  Observing a run: \<open>logged f\<close> is \<open>f\<close> keeping, beside its own state, the list of the
  calls it received with their outcomes; \<open>recording plt\<close> is \<open>plt\<close> keeping the list of
  the drawing calls it received.
\<close>

definition logged ::
  "('x, 's) classifier \<Rightarrow> ('x, 's \<times> (float64 list \<times> ('x exn + float64)) list) classifier" where
  "logged f v = (\<lambda>(s, log). case f v s of (out, s') \<Rightarrow> (out, (s', log @ [(v, out)])))"

definition recording :: "('x, 'l, 'p) backend \<Rightarrow> ('x, 'l, 'p \<times> 'l draw_call list) backend" where
  "recording plt c = (\<lambda>(p, calls). case plt c p of (out, p') \<Rightarrow> (out, (p', calls @ [c])))"

definition never_raises :: "('x, 's) classifier \<Rightarrow> bool" where
  "never_raises f \<longleftrightarrow> (\<forall>v s. \<exists>r. fst (f v s) = Inr r)"

text \<open>A drawing call with its labels argument replaced (only \<open>Scatter\<close> has one).\<close>

fun with_labels :: "'l list \<Rightarrow> 'l draw_call \<Rightarrow> 'l draw_call" where
  "with_labels L (Scatter xs ys sz Y cm) = Scatter xs ys sz L cm"
| "with_labels L (Figure w h) = Figure w h"
| "with_labels L (Contourf xx yy Z cm) = Contourf xx yy Z cm"

subsection \<open>Callers used as examples\<close>

text \<open>The exceptions of the examples: the classifier's own, and matplotlib's.\<close>

datatype py_exn =
    ClassifierError
  | TypeError_z_shape   \<comment> \<open>contourf: Input z must be at least a (2, 2) shaped array\<close>
  | ValueError_xy_size  \<comment> \<open>scatter: x and y must be the same size\<close>
  | ValueError_c_size   \<comment> \<open>scatter: 'c' argument has n elements, inconsistent with 'x' and 'y'\<close>

text \<open>
  A classifier in the manner of \<^verbatim>\<open>lambda p: 1.0 if p[0] > 0 else 0.0\<close>, that also counts
  its calls.
\<close>

definition score_x :: "(py_exn, nat) classifier" where
  "score_x v n = (Inr (if fgt (hd v) (dbl 0 1) then dbl 1 1 else dbl 0 1), Suc n)"

text \<open>The two points \<open>(0, 0)\<close> and \<open>(0.01, 0.01)\<close>.\<close>

definition X_two :: "(float64 \<times> float64) list" where
  "X_two = [(dbl 0 1, dbl 0 1), (dbl 1 100, dbl 1 100)]"

text \<open>A classifier that raises on its second call.\<close>

definition raise_second :: "(py_exn, nat) classifier" where
  "raise_second v n = (if n = 1 then Inl (Other ClassifierError) else Inr (hd v), Suc n)"

text \<open>
  \<^verbatim>\<open>matplotlib.pyplot\<close>, as far as the three calls of the function go: which arguments
  each call accepts, by their sizes. Its state is the list of what has been drawn.
  \<^verbatim>\<open>figure\<close> always succeeds. \<^verbatim>\<open>contourf\<close> raises a \<^verbatim>\<open>TypeError\<close> unless \<open>z\<close> has two rows
  and two columns at least, and \<open>x\<close> and \<open>y\<close> have the shape of \<open>z\<close>. \<^verbatim>\<open>scatter\<close> raises a
  \<^verbatim>\<open>ValueError\<close> unless \<open>x\<close> and \<open>y\<close> have one size. It takes the numbers \<open>c\<close> when there
  is one for each point (they are mapped to colours through the colormap); a \<open>c\<close> of
  another size is read as a colour specification, which succeeds for no number at all
  (no colour) and for three or four numbers from 0 to 1 (one RGB or RGBA colour for
  every point); for everything else \<^verbatim>\<open>scatter\<close> raises the \<^verbatim>\<open>ValueError\<close> that tells the
  size of \<open>c\<close> does not fit \<open>x\<close> and \<open>y\<close>.
\<close>

definition scatter_accepts :: "nat \<Rightarrow> int list \<Rightarrow> bool" where
  "scatter_accepts n c \<longleftrightarrow>
     length c = n \<or> c = [] \<or>
     ((length c = 3 \<or> length c = 4) \<and> list_all (\<lambda>v. 0 \<le> v \<and> v \<le> 1) c)"

fun pyplot :: "(py_exn, int, int draw_call list) backend" where
  "pyplot (Figure w h) p = (Inr (), p @ [Figure w h])"
| "pyplot (Contourf xx yy Z cm) p =
     (if shape xx = shape Z \<and> shape yy = shape Z \<and> 2 \<le> fst (shape Z) \<and> 2 \<le> snd (shape Z)
      then (Inr (), p @ [Contourf xx yy Z cm])
      else (Inl (Other TypeError_z_shape), p))"
| "pyplot (Scatter xs ys sz c cm) p =
     (if length xs \<noteq> length ys then (Inl (Other ValueError_xy_size), p)
      else if scatter_accepts (length xs) c then (Inr (), p @ [Scatter xs ys sz c cm])
      else (Inl (Other ValueError_c_size), p))"

text \<open>
  What the function computes on \<open>X_two\<close>: both axes are sampled at \<open>- 0.0015\<close> and at
  \<open>0.0085\<close> (the binary64 numbers \<open>s_lo\<close> and \<open>s_hi\<close>), so the mesh has two rows and two
  columns; \<open>score_x\<close> is called four times and labels the right column 1.
\<close>

definition s_lo :: float64 where
  "s_lo = Finite (- 6917529027641082) (- 62)"

definition s_hi :: float64 where
  "s_hi = Finite 4899916394579100 (- 59)"

definition xx_two :: "float64 ndarray" where
  "xx_two = \<lparr>shape = (2, 2), data = [s_lo, s_hi, s_lo, s_hi]\<rparr>"

definition yy_two :: "float64 ndarray" where
  "yy_two = \<lparr>shape = (2, 2), data = [s_lo, s_lo, s_hi, s_hi]\<rparr>"

definition Z_two :: "int ndarray" where
  "Z_two = \<lparr>shape = (2, 2), data = [0, 1, 0, 1]\<rparr>"

definition log_two :: "(float64 list \<times> (py_exn exn + float64)) list" where
  "log_two = [([s_lo, s_lo], Inr (dbl 0 1)), ([s_hi, s_lo], Inr (dbl 1 1)),
              ([s_lo, s_hi], Inr (dbl 0 1)), ([s_hi, s_hi], Inr (dbl 1 1))]"

text \<open>The calls \<open>raise_second\<close> receives on \<open>X_two\<close>: the second one raises.\<close>

definition log_raise :: "(float64 list \<times> (py_exn exn + float64)) list" where
  "log_raise = [([s_lo, s_lo], Inr s_lo), ([s_hi, s_lo], Inl (Other ClassifierError))]"

text \<open>The drawing calls of a whole run on \<open>X_two\<close> with the labels \<open>Y\<close>.\<close>

definition calls_two :: "int list \<Rightarrow> int draw_call list" where
  "calls_two Y =
     [Figure 8 6, Contourf xx_two yy_two Z_two Spectral,
      Scatter (map fst X_two) (map snd X_two) 35 Y Spectral]"

text \<open>A single point, \<open>(5, 5)\<close>: both axes have range zero.\<close>

definition X_point :: "(float64 \<times> float64) list" where
  "X_point = [(dbl 5 1, dbl 5 1)]"




text \<open>
  The two points \<open>(- 1e16, 0)\<close> and \<open>(6.094901566811366e16, 0.01)\<close>: the padded \<open>x\<close>
  bounds are \<open>wrap_min\<close> and \<open>wrap_max\<close>, and \<open>(wrap_max - wrap_min) / 0.01\<close> is \<open>2 ^ 63\<close>
  exactly.
\<close>

definition X_wrap :: "(float64 \<times> float64) list" where
  "X_wrap = [(dbl (- 10000000000000000) 1, dbl 0 1), (dbl 60949015668113660 1, dbl 1 100)]"

definition wrap_min :: float64 where "wrap_min = Finite (- 5160588087554262) 2"
definition wrap_max :: float64 where "wrap_max = Finite 8948921002291339 3"

text \<open>
  The two points \<open>(1e16, 0)\<close> and \<open>(1e16 + 2, 1)\<close>: at this magnitude neighbouring
  binary64 numbers are 2 apart.
\<close>

definition X_big :: "(float64 \<times> float64) list" where
  "X_big = [(dbl 10000000000000000 1, dbl 0 1), (dbl 10000000000000002 1, dbl 1 1)]"

section \<open>Evaluating the arithmetic on literals\<close>

lemma bits_big: "2 ^ 16 \<le> n \<Longrightarrow> bits n = 16 + bits (n div 2 ^ 16)"
  by (subst bits.simps) simp

lemma bits_small: "1 \<le> n \<Longrightarrow> n < 2 ^ 16 \<Longrightarrow> bits n = 1 + bits (n div 2)"
  by (subst bits.simps) simp

lemma bits_zero: "n \<le> 0 \<Longrightarrow> bits n = 0"
  by (subst bits.simps) simp

lemmas bits_eval = bits_big bits_small bits_zero

lemmas float_eval =
  dbl_def round64_def round_at_def renorm_def pack_def flog2_def flog2_adjust_def rne_def
  bits_eval fsub_def fmul_def fdiv_def fgt_def of_intp_def ceil_int_def
  padding_def res_def half_def fminimum_def fmaximum_def

lemma logged_apply:
  "logged f v (s, l) = (case f v s of (out, s') \<Rightarrow> (out, (s', l @ [(v, out)])))"
  by (simp add: logged_def)

lemma recording_apply:
  "recording plt c (p, l) = (case plt c p of (out, p') \<Rightarrow> (out, (p', l @ [c])))"
  by (simp add: recording_def)

section \<open>Arrays and the loop: structure\<close>

lemma length_concat_const: "length (concat (map (\<lambda>y. xs) ys)) = length ys * length xs"
  by (induction ys) auto

lemma length_concat_rows: "length (concat (map (\<lambda>y. map (g y) xs) ys)) = length ys * length xs"
  by (induction ys) auto

lemma nth_concat_rows:
  "j < length ys \<Longrightarrow> i < length xs \<Longrightarrow>
   concat (map (\<lambda>y. map (g y) xs) ys) ! (j * length xs + i) = g (ys ! j) (xs ! i)"
proof (induction ys arbitrary: j)
  case Nil
  then show ?case by simp
next
  case (Cons y ys)
  show ?case
  proof (cases j)
    case 0
    with Cons.prems show ?thesis by (simp add: nth_append)
  next
    case (Suc k)
    with Cons.prems have "k < length ys" by simp
    from Cons.IH [OF this Cons.prems(2)] Suc show ?thesis
      by (simp add: nth_append add.assoc)
  qed
qed

lemma zip_meshgrid:
  "zip (concat (map (\<lambda>y. xs) ys)) (concat (map (\<lambda>y. map (\<lambda>x. y) xs) ys)) =
   concat (map (\<lambda>y. map (\<lambda>x. (x, y)) xs) ys)"
proof (induction ys)
  case Nil
  show ?case by simp
next
  case (Cons y ys)
  have "zip xs (map (\<lambda>x. y) xs) = map (\<lambda>x. (x, y)) xs"
    by (induction xs) auto
  with Cons show ?case by (simp add: zip_append)
qed

lemma classify_loop_length:
  "classify_loop f ps Z0 s = (Inr Z, s') \<Longrightarrow> length Z = length Z0 + length ps"
proof (induction ps arbitrary: Z0 s)
  case Nil
  then show ?case by simp
next
  case (Cons a ps)
  obtain x y where a: "a = (x, y)" by (cases a)
  from Cons.prems a obtain r s1 where "f [x, y] s = (Inr r, s1)"
    and "classify_loop f ps (Z0 @ [if fgt r half then 1 else 0]) s1 = (Inr Z, s')"
    by (auto split: prod.splits sum.splits)
  from Cons.IH [OF this(2)] show ?case by simp
qed

lemma classify_loop_total:
  "never_raises f \<Longrightarrow> \<exists>Z s'. classify_loop f ps Z0 s = (Inr Z, s')"
proof (induction ps arbitrary: Z0 s)
  case Nil
  show ?case by simp
next
  case (Cons a ps)
  obtain x y where a: "a = (x, y)" by (cases a)
  from Cons.prems obtain r where "fst (f [x, y] s) = Inr r"
    unfolding never_raises_def by blast
  then obtain s1 where f: "f [x, y] s = (Inr r, s1)" by (cases "f [x, y] s") auto
  from Cons.IH [OF Cons.prems, of "Z0 @ [if fgt r half then 1 else 0]" s1] a f
  show ?case by simp
qed

lemma classify_loop_logged_ok:
  "classify_loop (logged f) ps Z0 (s, l0) = (Inr Z, (s', l)) \<Longrightarrow>
   \<exists>rs. length rs = length ps \<and>
        l = l0 @ zip (map (\<lambda>(x, y). [x, y]) ps) (map Inr rs) \<and>
        Z = Z0 @ map (\<lambda>r. if fgt r half then 1 else 0) rs"
proof (induction ps arbitrary: Z0 s l0)
  case Nil
  then show ?case by simp
next
  case (Cons a ps)
  obtain x y where a: "a = (x, y)" by (cases a)
  from Cons.prems a obtain r s1 where f: "f [x, y] s = (Inr r, s1)"
    and rest: "classify_loop (logged f) ps (Z0 @ [if fgt r half then 1 else 0])
                 (s1, l0 @ [([x, y], Inr r)]) = (Inr Z, (s', l))"
    by (auto simp: logged_apply split: prod.splits sum.splits)
  from Cons.IH [OF rest] obtain rs where rs: "length rs = length ps"
    "l = (l0 @ [([x, y], Inr r)]) @ zip (map (\<lambda>(x, y). [x, y]) ps) (map Inr rs)"
    "Z = (Z0 @ [if fgt r half then 1 else 0]) @ map (\<lambda>r. if fgt r half then 1 else 0) rs"
    by blast
  show ?case
    by (rule exI [of _ "r # rs"]) (use rs a in simp)
qed

lemma classify_loop_logged_err:
  "classify_loop (logged f) ps Z0 (s, l0) = (Inl err, (s', l)) \<Longrightarrow>
   \<exists>rs. length rs < length ps \<and>
        l = l0 @ zip (map (\<lambda>(x, y). [x, y]) (take (length rs) ps)) (map Inr rs)
               @ [((\<lambda>(x, y). [x, y]) (ps ! length rs), Inl err)]"
proof (induction ps arbitrary: Z0 s l0)
  case Nil
  then show ?case by simp
next
  case (Cons a ps)
  obtain x y where a: "a = (x, y)" by (cases a)
  obtain out s1 where f: "f [x, y] s = (out, s1)" by (cases "f [x, y] s")
  show ?case
  proof (cases out)
    case (Inl e)
    with Cons.prems a f have "l = l0 @ [([x, y], Inl err)]"
      by (auto simp: logged_apply split: if_splits)
    then show ?thesis
      by (intro exI [of _ "[]"]) (simp add: a)
  next
    case (Inr r)
    with Cons.prems a f
    have rest: "classify_loop (logged f) ps (Z0 @ [if fgt r half then 1 else 0])
                 (s1, l0 @ [([x, y], Inr r)]) = (Inl err, (s', l))"
      by (auto simp: logged_apply split: if_splits)
    from Cons.IH [OF rest] obtain rs where rs: "length rs < length ps"
      "l = (l0 @ [([x, y], Inr r)]) @ zip (map (\<lambda>(x, y). [x, y]) (take (length rs) ps)) (map Inr rs)
               @ [((\<lambda>(x, y). [x, y]) (ps ! length rs), Inl err)]"
      by blast
    show ?thesis
      by (rule exI [of _ "r # rs"]) (use rs a in simp)
  qed
qed

lemma cell_index_less:
  assumes "j < ny" "i < nx"
  shows "j * nx + i < ny * (nx::nat)"
proof -
  have "j * nx + i < Suc j * nx" using assms(2) by simp
  also have "\<dots> \<le> ny * nx" using assms(1) by (intro mult_le_mono1) simp
  finally show ?thesis .
qed

lemma grid_meshgrid:
  assumes "grid X = Inr (xx, yy)"
  shows "\<exists>x_min x_max y_min y_max xs ys.
           padded_bounds X = Inr (x_min, x_max, y_min, y_max) \<and>
           arange x_min x_max res = Inr xs \<and> arange y_min y_max res = Inr ys \<and>
           (xx, yy) = meshgrid xs ys"
  using assms unfolding grid_def
  by (auto split: sum.splits prod.splits)

lemma meshgrid_shape:
  assumes "(xx, yy) = meshgrid xs ys"
  shows "shape xx = (length ys, length xs)" "shape yy = (length ys, length xs)"
    "length (ravel xx) = length ys * length xs" "length (ravel yy) = length ys * length xs"
  using assms by (simp_all add: meshgrid_def ravel_def length_concat_const length_concat_rows)

lemma meshgrid_item:
  assumes "(xx, yy) = meshgrid xs ys" "j < length ys" "i < length xs"
  shows "item xx j i = xs ! i" "item yy j i = ys ! j"
proof -
  have "data xx = concat (map (\<lambda>y. map (\<lambda>x. x) xs) ys)"
    using assms(1) by (simp add: meshgrid_def)
  then show "item xx j i = xs ! i"
    using assms nth_concat_rows [OF assms(2,3), of "\<lambda>y x. x"]
    by (simp add: item_def meshgrid_def)
  show "item yy j i = ys ! j"
    using assms nth_concat_rows [OF assms(2,3), of "\<lambda>y x. y"]
    by (simp add: item_def meshgrid_def)
qed

lemma meshgrid_zip:
  assumes "(xx, yy) = meshgrid xs ys"
  shows "zip (ravel xx) (ravel yy) = concat (map (\<lambda>y. map (\<lambda>x. (x, y)) xs) ys)"
  using assms by (simp add: meshgrid_def ravel_def zip_meshgrid)

lemma meshgrid_zip_nth:
  assumes "(xx, yy) = meshgrid xs ys" "j < length ys" "i < length xs"
  shows "zip (ravel xx) (ravel yy) ! (j * length xs + i) = (item xx j i, item yy j i)"
  using meshgrid_item [OF assms] nth_concat_rows [OF assms(2,3), of "\<lambda>y x. (x, y)"]
  by (simp add: meshgrid_zip [OF assms(1)])

lemma label_grid_ok:
  assumes "label_grid f X s = (Inr (xx, yy, Z), s')"
  shows "grid X = Inr (xx, yy)"
    and "classify_loop f (zip (ravel xx) (ravel yy)) [] s = (Inr (data Z), s')"
    and "shape Z = shape xx"
  using assms unfolding label_grid_def reshape_def
  by (auto split: sum.splits prod.splits if_splits)

lemma flt_irrefl: "\<not> flt x x"
  by (cases x) simp_all

lemma never_raises_logged: "never_raises f \<Longrightarrow> never_raises (logged f)"
  unfolding never_raises_def
proof (intro allI)
  fix v sl
  assume a: "\<forall>v s. \<exists>r. fst (f v s) = Inr r"
  show "\<exists>r. fst (logged f v sl) = Inr r"
  proof (cases sl)
    case (Pair s l)
    from a obtain r where "fst (f v s) = Inr r" by blast
    then show ?thesis
      by (cases "f v s") (simp add: Pair logged_apply)
  qed
qed

lemma label_grid_total:
  assumes "grid X = Inr (xx, yy)" and "never_raises f"
  shows "\<exists>Z s'. label_grid f X s = (Inr (xx, yy, Z), s') \<and>
           shape Z = shape xx \<and> shape Z = shape yy \<and>
           length (data Z) = fst (shape Z) * snd (shape Z)"
proof -
  from grid_meshgrid [OF assms(1)] obtain xs ys where m: "(xx, yy) = meshgrid xs ys"
    by blast
  from classify_loop_total [OF assms(2)] obtain Z s'
    where loop: "classify_loop f (zip (ravel xx) (ravel yy)) [] s = (Inr Z, s')"
    by blast
  from classify_loop_length [OF loop] meshgrid_shape [OF m]
  have len: "length Z = fst (shape xx) * snd (shape xx)" by simp
  have "label_grid f X s = (Inr (xx, yy, \<lparr>shape = shape xx, data = Z\<rparr>), s')"
    using assms(1) loop len by (simp add: label_grid_def reshape_def)
  then show ?thesis
    using len meshgrid_shape [OF m]
    by (intro exI [of _ "\<lparr>shape = shape xx, data = Z\<rparr>"] exI [of _ s'] conjI) simp_all
qed

lemma plot_classifier_state:
  "plot_decision_boundary f plt X Y s p = (r, s', p') \<Longrightarrow> snd (label_grid f X s) = s'"
  unfolding plot_decision_boundary_def
  by (auto split: prod.splits sum.splits)

lemma plot_classifier_error:
  "label_grid f X s = (Inl err, s') \<Longrightarrow> plot_decision_boundary f plt X Y s p = (Inl err, s', p)"
  unfolding plot_decision_boundary_def by simp

text \<open>What a recording plotting library has received at the end of a run.\<close>

lemma recorded_run:
  assumes "label_grid f X s = (Inr (xx, yy, Z), s1)"
    and "plot_decision_boundary f (recording plt) X Y s (p, []) = (r, s', (p', calls))"
  shows "s' = s1"
    and "take 1 calls = [Figure 8 6]"
    and "fst (plt (Figure 8 6) p) = Inr () \<Longrightarrow>
           take 2 calls = [Figure 8 6, Contourf xx yy Z Spectral]"
    and "Contourf xx' yy' Z' cm \<in> set calls \<Longrightarrow> xx' = xx \<and> yy' = yy \<and> Z' = Z \<and> cm = Spectral"
proof -
  obtain o1 p1 where f: "plt (Figure 8 6) p = (o1, p1)" by (cases "plt (Figure 8 6) p")
  obtain o2 p2 where c: "plt (Contourf xx yy Z Spectral) p1 = (o2, p2)"
    by (cases "plt (Contourf xx yy Z Spectral) p1")
  obtain o3 p3 where sc: "plt (Scatter (map fst X) (map snd X) 35 Y Spectral) p2 = (o3, p3)"
    by (cases "plt (Scatter (map fst X) (map snd X) 35 Y Spectral) p2")
  have calls: "calls = (case o1 of Inl e \<Rightarrow> [Figure 8 6] | Inr u \<Rightarrow>
                 (case o2 of Inl e \<Rightarrow> [Figure 8 6, Contourf xx yy Z Spectral]
                  | Inr u \<Rightarrow> [Figure 8 6, Contourf xx yy Z Spectral,
                       Scatter (map fst X) (map snd X) 35 Y Spectral]))"
    and s: "s' = s1"
    using assms(2) unfolding plot_decision_boundary_def assms(1)
    by (auto simp: recording_apply f c sc split: sum.splits)
  show "s' = s1" by (rule s)
  show "take 1 calls = [Figure 8 6]"
    unfolding calls by (simp split: sum.splits)
  show "take 2 calls = [Figure 8 6, Contourf xx yy Z Spectral]" if "fst (plt (Figure 8 6) p) = Inr ()"
    using that unfolding calls f by (auto split: sum.splits)
  show "xx' = xx \<and> yy' = yy \<and> Z' = Z \<and> cm = Spectral" if "Contourf xx' yy' Z' cm \<in> set calls"
    using that unfolding calls by (auto split: sum.splits)
qed

lemma recorded_contourf:
  assumes "plot_decision_boundary f (recording plt) X Y s (p, []) = (r, s', (p', calls))"
    and "Contourf xx yy Z cm \<in> set calls"
  shows "label_grid f X s = (Inr (xx, yy, Z), s')"
proof (cases "label_grid f X s")
  case (Pair out s1)
  show ?thesis
  proof (cases out)
    case (Inl err)
    from plot_classifier_error [OF Pair [unfolded Inl], of "recording plt" Y "(p, [])"] assms
    show ?thesis by simp
  next
    case (Inr g)
    obtain xx1 yy1 Z1 where g: "g = (xx1, yy1, Z1)" by (cases g)
    note lg = Pair [unfolded Inr g]
    from recorded_run(1) [OF lg assms(1)] recorded_run(4) [OF lg assms(1) assms(2)] lg
    show ?thesis by simp
  qed
qed

section \<open>The run on two points, evaluated\<close>

lemma bounds_two:
  "padded_bounds X_two = Inr (s_lo, Finite 6629298651489370 (- 59), s_lo, Finite 6629298651489370 (- 59))"
  by (simp add: padded_bounds_def X_two_def s_lo_def float_eval Let_def)

lemma arange_two: "arange s_lo (Finite 6629298651489370 (- 59)) res = Inr [s_lo, s_hi]"
  by (simp add: arange_def arange_length_def to_intp_def arange_item_def s_lo_def s_hi_def float_eval Let_def
      upt_conv_Cons)

lemma grid_two: "grid X_two = Inr (xx_two, yy_two)"
  by (simp add: grid_def bounds_two arange_two meshgrid_def xx_two_def yy_two_def)

lemma score_lo: "score_x [s_lo, y] n = (Inr (dbl 0 1), Suc n)"
  by (simp add: score_x_def s_lo_def float_eval)

lemma score_hi: "score_x [s_hi, y] n = (Inr (dbl 1 1), Suc n)"
  by (simp add: score_x_def s_hi_def float_eval)

lemma label_zero: "fgt (dbl 0 1) half = False"
  by (simp add: float_eval)

lemma label_one: "fgt (dbl 1 1) half = True"
  by (simp add: float_eval)

lemma label_grid_two:
  "label_grid (logged score_x) X_two (0, []) = (Inr (xx_two, yy_two, Z_two), (4, log_two))"
  unfolding label_grid_def grid_two
  by (simp add: xx_two_def yy_two_def Z_two_def log_two_def ravel_def reshape_def logged_apply
      score_lo score_hi label_zero label_one)

lemma label_grid_two_plain:
  "label_grid score_x X_two 0 = (Inr (xx_two, yy_two, Z_two), 4)"
  unfolding label_grid_def grid_two
  by (simp add: xx_two_def yy_two_def Z_two_def ravel_def reshape_def
      score_lo score_hi label_zero label_one)

lemma run_two:
  assumes "scatter_accepts 2 Y"
  shows "plot_decision_boundary (logged score_x) (recording pyplot) X_two Y (0, []) ([], []) =
     (Inr (), (4, log_two), (calls_two Y, calls_two Y))"
  unfolding plot_decision_boundary_def label_grid_two
  using assms
  by (simp add: recording_apply calls_two_def xx_two_def yy_two_def Z_two_def X_two_def
      numeral_2_eq_2)

lemma accepts_two: "scatter_accepts 2 [0, 1]" "scatter_accepts 2 [1, 0]"
  by (simp_all add: scatter_accepts_def)

lemma never_raises_score_x: "never_raises score_x"
  by (simp add: never_raises_def score_x_def)

lemma raise_first: "raise_second [s_lo, y] 0 = (Inr s_lo, 1)"
  by (simp add: raise_second_def)

lemma raise_then: "raise_second v (Suc 0) = (Inl (Other ClassifierError), 2)"
  by (simp add: raise_second_def)

lemma label_s_lo: "fgt s_lo half = False"
  by (simp add: s_lo_def float_eval)

lemma run_raise:
  "plot_decision_boundary (logged raise_second) (recording pyplot) X_two Y (0, []) ([], []) =
     (Inl (Other ClassifierError), (2, log_raise), ([], []))"
  unfolding plot_decision_boundary_def label_grid_def grid_two
  by (simp add: xx_two_def yy_two_def log_raise_def ravel_def logged_apply
      raise_first raise_then label_s_lo)

lemma arange_item_0: "arange_item start step 0 = start"
  by (simp add: arange_item_def Let_def)

lemma arange_ok:
  "arange start stop step = Inr xs \<Longrightarrow>
   \<exists>n. arange_length start stop step = Inr n \<and> xs = map (arange_item start step) [0 ..< n]"
  unfolding arange_def by (auto split: sum.splits)




lemma grid_samples:
  assumes "grid X = Inr (xx, yy)"
  shows "\<exists>x_min x_max y_min y_max nx ny.
           padded_bounds X = Inr (x_min, x_max, y_min, y_max) \<and>
           arange_length x_min x_max res = Inr nx \<and>
           arange_length y_min y_max res = Inr ny \<and>
           shape xx = (ny, nx) \<and> shape yy = (ny, nx) \<and>
           arange_item x_min res 0 = x_min \<and> arange_item y_min res 0 = y_min \<and>
           (\<forall>j < ny. \<forall>i < nx.
              item xx j i = arange_item x_min res i \<and> item yy j i = arange_item y_min res j) \<and>
           zip (ravel xx) (ravel yy) =
             concat (map (\<lambda>j. map (\<lambda>i. (arange_item x_min res i, arange_item y_min res j)) [0 ..< nx])
                       [0 ..< ny])"
proof -
  from grid_meshgrid [OF assms] obtain x_min x_max y_min y_max xs ys
    where b: "padded_bounds X = Inr (x_min, x_max, y_min, y_max)"
      and ax: "arange x_min x_max res = Inr xs" and ay: "arange y_min y_max res = Inr ys"
      and m: "(xx, yy) = meshgrid xs ys"
    by blast
  from arange_ok [OF ax] obtain nx where nx: "arange_length x_min x_max res = Inr nx"
    "xs = map (arange_item x_min res) [0 ..< nx]" by blast
  from arange_ok [OF ay] obtain ny where ny: "arange_length y_min y_max res = Inr ny"
    "ys = map (arange_item y_min res) [0 ..< ny]" by blast
  have lx: "length xs = nx" and ly: "length ys = ny" using nx ny by simp_all
  have items: "item xx j i = arange_item x_min res i \<and> item yy j i = arange_item y_min res j"
    if "j < ny" "i < nx" for j i
    using meshgrid_item [OF m, of j i] that lx ly nx(2) ny(2) by simp
  have "zip (ravel xx) (ravel yy) = concat (map (\<lambda>y. map (\<lambda>x. (x, y)) xs) ys)"
    by (rule meshgrid_zip [OF m])
  also have "\<dots> = concat (map (\<lambda>j. map (\<lambda>i. (arange_item x_min res i, arange_item y_min res j)) [0 ..< nx])
                       [0 ..< ny])"
    unfolding nx(2) ny(2) by (simp add: comp_def)
  finally have z: "zip (ravel xx) (ravel yy) =
      concat (map (\<lambda>j. map (\<lambda>i. (arange_item x_min res i, arange_item y_min res j)) [0 ..< nx])
                [0 ..< ny])" .
  show ?thesis
    using b nx(1) ny(1) meshgrid_shape(1,2) [OF m] lx ly items z
    by (intro exI [of _ x_min] exI [of _ x_max] exI [of _ y_min] exI [of _ y_max]
        exI [of _ nx] exI [of _ ny]) (simp add: arange_item_0)
qed


section \<open>The other example runs, evaluated\<close>

lemma bounds_point:
  "padded_bounds X_point = Inr (dbl 5 1, dbl 5 1, dbl 5 1, dbl 5 1)"
  by (simp add: padded_bounds_def X_point_def float_eval Let_def)


lemma res_value: "res = Finite 5764607523034235 (- 59)"
  by (simp add: float_eval)

lemma bounds_wrap:
  "padded_bounds X_wrap = Inr (wrap_min, wrap_max, s_lo, Finite 6629298651489370 (- 59))"
  by (simp add: padded_bounds_def X_wrap_def wrap_min_def wrap_max_def s_lo_def float_eval Let_def)

lemma wrap_quotient: "fdiv (fsub wrap_max wrap_min) res = Finite (2 ^ 52) 11"
  by (simp add: wrap_min_def wrap_max_def float_eval)

lemma wrap_length: "arange_length wrap_min wrap_max res = Inr 0"
  by (simp add: arange_length_def wrap_quotient ceil_int_def to_intp_def)

text \<open>On \<open>X_wrap\<close> the \<open>x\<close> axis is empty and the \<open>y\<close> axis has two samples.\<close>

lemma arange_wrap: "arange wrap_min wrap_max res = Inr []"
  by (simp add: arange_def wrap_length)

lemma grid_wrap:
  "grid X_wrap = Inr (\<lparr>shape = (2, 0), data = []\<rparr>, \<lparr>shape = (2, 0), data = []\<rparr>)"
  by (simp add: grid_def bounds_wrap arange_wrap arange_two meshgrid_def)









section \<open>Rounding to nearest: what the padding can and cannot do\<close>

lemma div_mult_bounds:
  fixes n d :: int
  assumes "0 < d"
  shows "(n div d) * d \<le> n" and "n < (n div d + 1) * d"
proof -
  have eq: "n = n div d * d + n mod d" by simp
  have lo: "0 \<le> n mod d" and hi: "n mod d < d"
    using assms by simp_all
  show "(n div d) * d \<le> n" using eq lo by linarith
  have "(n div d + 1) * d = n div d * d + d" by (simp add: algebra_simps)
  then show "n < (n div d + 1) * d" using eq hi by linarith
qed

lemma div_less_bound:
  fixes a c d :: int
  assumes "0 < d" "a < c * d"
  shows "a div d < c"
proof (rule ccontr)
  assume "\<not> a div d < c"
  then have "c * d \<le> a div d * d" using assms(1) by (intro mult_right_mono) simp_all
  moreover have "a div d * d \<le> a" by (rule div_mult_bounds [OF assms(1)])
  ultimately show False using assms(2) by linarith
qed

lemma bits_pos: "0 < n \<Longrightarrow> 0 < bits n"
  by (subst bits.simps) simp

lemma bits_bounds: "0 < n \<Longrightarrow> 2 ^ (bits n - 1) \<le> n \<and> n < 2 ^ bits n"
proof (induction n rule: bits.induct)
  case (1 n)
  show ?case
  proof (cases "2 ^ 16 \<le> n")
    case True
    then have pos: "0 < n div 2 ^ 16" by (simp add: pos_imp_zdiv_pos_iff)
    from "1.IH"(1) [OF True pos] have lo: "2 ^ (bits (n div 2 ^ 16) - 1) \<le> n div 2 ^ 16"
      and hi: "n div 2 ^ 16 < 2 ^ bits (n div 2 ^ 16)" by simp_all
    have b: "bits n = 16 + bits (n div 2 ^ 16)" using True by (subst bits.simps) simp
    have p: "0 < bits (n div 2 ^ 16)" using pos by (rule bits_pos)
    then obtain k where k: "bits (n div 2 ^ 16) = Suc k" by (cases "bits (n div 2 ^ 16)") auto
    have "2 ^ (bits n - 1) = (2::int) ^ k * 2 ^ 16"
      using b k by (simp add: power_add)
    also have "\<dots> \<le> (n div 2 ^ 16) * 2 ^ 16" using lo k by simp
    also have "\<dots> \<le> n" by (rule div_mult_bounds) simp
    finally have l: "2 ^ (bits n - 1) \<le> n" .
    have "n div 2 ^ 16 + 1 \<le> 2 ^ bits (n div 2 ^ 16)" using hi by simp
    then have "(n div 2 ^ 16 + 1) * 2 ^ 16 \<le> (2::int) ^ bits (n div 2 ^ 16) * 2 ^ 16"
      by simp
    moreover have "n < (n div 2 ^ 16 + 1) * 2 ^ 16"
      by (rule div_mult_bounds) simp
    ultimately have "n < 2 ^ bits n" using b by (simp add: power_add mult.commute)
    with l show ?thesis by simp
  next
    case False
    note small = this
    show ?thesis
    proof (cases "n = 1")
      case True
      then have "bits n = 1" by (simp add: bits_small bits_zero)
      with True show ?thesis by simp
    next
      case False
      with "1.prems" have n2: "2 \<le> n" by simp
      then have pos: "0 < n div 2" by simp
      have one: "1 \<le> n" using n2 by simp
      from "1.IH"(2) [OF small one pos] have lo: "2 ^ (bits (n div 2) - 1) \<le> n div 2"
        and hi: "n div 2 < 2 ^ bits (n div 2)" by simp_all
      have b: "bits n = 1 + bits (n div 2)" using small one by (subst bits.simps) simp
      have p: "0 < bits (n div 2)" using pos by (rule bits_pos)
      then obtain k where k: "bits (n div 2) = Suc k" by (cases "bits (n div 2)") auto
      have "2 ^ (bits n - 1) = (2::int) ^ k * 2"
        using b k by simp
      also have "\<dots> \<le> (n div 2) * 2" using lo k by simp
      also have "\<dots> \<le> n" by simp
      finally have l: "2 ^ (bits n - 1) \<le> n" .
      have "n < 2 * 2 ^ bits (n div 2)" using hi by linarith
      then have "n < 2 ^ bits n" using b by simp
      with l show ?thesis by simp
    qed
  qed
qed

lemma bits_unique:
  assumes "2 ^ k \<le> n" "n < 2 ^ Suc k"
  shows "bits n = Suc k"
proof -
  have pos: "0 < n" using assms(1) by (smt (verit) zero_less_power)
  from bits_bounds [OF pos] have lo: "2 ^ (bits n - 1) \<le> n" and hi: "n < 2 ^ bits n" by simp_all
  have "(2::int) ^ k < 2 ^ bits n" using assms(1) hi by linarith
  then have a: "k < bits n" by (rule power_less_imp_less_exp [rotated]) simp
  have "(2::int) ^ (bits n - 1) < 2 ^ Suc k" using assms(2) lo by linarith
  then have "bits n - 1 < Suc k" by (rule power_less_imp_less_exp [rotated]) simp
  with a show ?thesis by simp
qed


lemma rne_one: "rne x 1 = x"
  by (simp add: rne_def)

lemma rne_bounds:
  assumes "0 < d"
  shows "a div d \<le> rne a d" and "rne a d \<le> a div d + 1"
    and "a mod d = 0 \<Longrightarrow> rne a d = a div d"
  using assms by (auto simp: rne_def)

lemma dvd_next_multiple:
  fixes q U :: int
  assumes "q * 2 ^ T < U" and "2 ^ T dvd U"
  shows "(q + 1) * 2 ^ T \<le> U"
proof -
  from assms(2) obtain c where c: "U = 2 ^ T * c" ..
  with assms(1) have "q * 2 ^ T < c * 2 ^ T" by (simp add: mult.commute)
  then have "q < c" by simp
  then have "(q + 1) * 2 ^ T \<le> c * (2::int) ^ T" by (intro mult_right_mono) simp_all
  with c show ?thesis by (simp add: mult.commute)
qed

lemma dvd_prev_multiple:
  fixes q U :: int
  assumes "U < (q + 1) * 2 ^ T" and "2 ^ T dvd U"
  shows "U \<le> q * 2 ^ T"
proof -
  from assms(2) obtain c where c: "U = 2 ^ T * c" ..
  with assms(1) have "c * 2 ^ T < (q + 1) * 2 ^ T" by (simp add: mult.commute)
  then have "c < q + 1" by simp
  then have "c * 2 ^ T \<le> q * (2::int) ^ T" by (intro mult_right_mono) simp_all
  with c show ?thesis by (simp add: mult.commute)
qed

lemma pow2_dvd_scaled:
  fixes mu :: int
  assumes "T \<le> Eu"
  shows "2 ^ T dvd mu * 2 ^ Eu"
  using assms by (simp add: le_imp_power_dvd)

lemma round_up_le:
  fixes a mu :: int and j E Eu :: nat
  assumes a: "0 < a" and B: "bits a = 53 + j"
    and mu: "mu < 2 ^ 53"
    and le: "a * 2 ^ E \<le> mu * 2 ^ Eu"
  shows "rne a (2 ^ j) * 2 ^ (j + E) \<le> mu * 2 ^ Eu"
proof -
  let ?D = "(2::int) ^ j"
  let ?q = "a div ?D"
  have D: "0 < ?D" by simp
  from bits_bounds [OF a] B have lo: "2 ^ (52 + j) \<le> a" by simp
  have "(2::int) ^ (52 + j + E) = 2 ^ (52 + j) * 2 ^ E" by (simp add: power_add)
  also have "\<dots> \<le> a * 2 ^ E" using lo by simp
  also have "\<dots> \<le> mu * 2 ^ Eu" by (rule le)
  also have "\<dots> < 2 ^ 53 * 2 ^ Eu" using mu by simp
  also have "\<dots> = 2 ^ (53 + Eu)" by (simp add: power_add)
  finally have "52 + j + E < 53 + Eu" by simp
  then have "j + E \<le> Eu" by simp
  then have dvd: "2 ^ (j + E) dvd mu * 2 ^ Eu" by (rule pow2_dvd_scaled)
  show ?thesis
  proof (cases "a mod ?D = 0")
    case True
    then have "rne a ?D = ?q" and "?q * ?D = a"
      using rne_bounds(3) [OF D] by auto
    then have "rne a ?D * 2 ^ (j + E) = a * 2 ^ E"
      by (simp add: power_add)
    with le show ?thesis by simp
  next
    case False
    have "?q * ?D \<le> a" by (rule div_mult_bounds [OF D])
    moreover have "?q * ?D \<noteq> a" using False by (metis mod_mult_self2_is_0)
    ultimately have "?q * ?D < a" by simp
    then have "?q * ?D * 2 ^ E < a * 2 ^ E" by (intro mult_strict_right_mono) simp_all
    moreover have "?q * 2 ^ (j + E) = ?q * ?D * 2 ^ E" by (simp add: power_add)
    ultimately have "?q * 2 ^ (j + E) < mu * 2 ^ Eu" using le by linarith
    from dvd_next_multiple [OF this dvd]
    have "(?q + 1) * 2 ^ (j + E) \<le> mu * 2 ^ Eu" .
    moreover have "rne a ?D * 2 ^ (j + E) \<le> (?q + 1) * 2 ^ (j + E)"
      using rne_bounds(2) [OF D, of a] by (intro mult_right_mono) simp_all
    ultimately show ?thesis by linarith
  qed
qed

lemma round_down_ge:
  fixes a mu :: int and j E Eu :: nat
  assumes a: "0 < a" and B: "bits a = 53 + j"
    and mu: "mu < 2 ^ 53"
    and le: "mu * 2 ^ Eu \<le> a * 2 ^ E"
  shows "mu * 2 ^ Eu \<le> rne a (2 ^ j) * 2 ^ (j + E)"
proof -
  let ?D = "(2::int) ^ j"
  let ?q = "a div ?D"
  have D: "0 < ?D" by simp
  from bits_bounds [OF a] B have lo: "2 ^ (52 + j) \<le> a" by simp
  have q: "?q * 2 ^ (j + E) \<le> rne a ?D * 2 ^ (j + E)"
    using rne_bounds(1) [OF D, of a] by (intro mult_right_mono) simp_all
  have "mu * 2 ^ Eu \<le> ?q * 2 ^ (j + E)"
  proof (cases "j + E \<le> Eu")
    case True
    then have dvd: "2 ^ (j + E) dvd mu * 2 ^ Eu" by (rule pow2_dvd_scaled)
    have "a < (?q + 1) * ?D" by (rule div_mult_bounds [OF D])
    then have "a * 2 ^ E < (?q + 1) * ?D * 2 ^ E" by (intro mult_strict_right_mono) simp_all
    moreover have "(?q + 1) * 2 ^ (j + E) = (?q + 1) * ?D * 2 ^ E" by (simp add: power_add)
    ultimately have "mu * 2 ^ Eu < (?q + 1) * 2 ^ (j + E)" using le by linarith
    from dvd_prev_multiple [OF this dvd] show ?thesis .
  next
    case False
    then have "Suc Eu \<le> j + E" by simp
    have "(2::int) ^ 52 = 2 ^ (52 + j) div 2 ^ j" by (simp add: power_add)
    also have "\<dots> \<le> ?q" using lo by (intro zdiv_mono1) simp_all
    finally have q52: "2 ^ 52 \<le> ?q" .
    have "mu * 2 ^ Eu \<le> 2 ^ 53 * 2 ^ Eu" using mu by simp
    also have "\<dots> = 2 ^ 52 * 2 ^ Suc Eu" by simp
    also have "\<dots> \<le> 2 ^ 52 * 2 ^ (j + E)"
      using \<open>Suc Eu \<le> j + E\<close> by (intro mult_left_mono power_increasing) simp_all
    also have "\<dots> \<le> ?q * 2 ^ (j + E)" using q52 by (intro mult_right_mono) simp_all
    finally show ?thesis .
  qed
  with q show ?thesis by linarith
qed

lemma flog2_one:
  assumes "0 < a"
  shows "flog2 a 1 = int (bits a) - 1"
proof -
  have b1: "bits 1 = 1" by (simp add: bits_small bits_zero)
  have "0 < bits a" using assms by (rule bits_pos)
  then have l: "nat (int (bits a) - 1) = bits a - 1" "nat (1 - int (bits a)) = 0"
    by simp_all
  from bits_bounds [OF assms] have "2 ^ (bits a - 1) \<le> a" by simp
  then show ?thesis
    by (simp add: flog2_def flog2_adjust_def b1 l)
qed


lemma units_split:
  assumes "- 1074 \<le> t" "t \<le> e"
  shows "units m e = m * 2 ^ nat (e - t) * 2 ^ nat (t + 1074)"
proof -
  have "nat (e + 1074) = nat (e - t) + nat (t + 1074)" using assms by simp
  then show ?thesis by (simp add: units_def power_add)
qed

lemma fle_units:
  assumes "- 1074 \<le> e1" "- 1074 \<le> e2"
  shows "fle (Finite m1 e1) (Finite m2 e2) \<longleftrightarrow> units m1 e1 \<le> units m2 e2"
proof -
  let ?mn = "min e1 e2"
  have mn: "- 1074 \<le> ?mn" "?mn \<le> e1" "?mn \<le> e2" using assms by simp_all
  let ?c = "(2::int) ^ nat (?mn + 1074)"
  have c: "0 < ?c" by simp
  have u1: "units m1 e1 = m1 * 2 ^ nat (e1 - ?mn) * ?c" by (rule units_split [OF mn(1,2)])
  have u2: "units m2 e2 = m2 * 2 ^ nat (e2 - ?mn) * ?c" by (rule units_split [OF mn(1,3)])
  have "units m1 e1 \<le> units m2 e2 \<longleftrightarrow> m1 * 2 ^ nat (e1 - ?mn) \<le> m2 * 2 ^ nat (e2 - ?mn)"
    unfolding u1 u2 using c by (simp only: mult_le_cancel_right) simp
  moreover have "m1 = 0 \<Longrightarrow> (m1 * 2 ^ nat (e1 - ?mn) \<le> m2 * 2 ^ nat (e2 - ?mn)) = (0 \<le> m2)"
    by (simp add: zero_le_mult_iff)
  moreover have "m2 = 0 \<Longrightarrow> (m1 * 2 ^ nat (e1 - ?mn) \<le> m2 * 2 ^ nat (e2 - ?mn)) = (m1 \<le> 0)"
    by (simp add: mult_le_0_iff)
  ultimately show ?thesis by simp
qed

lemma flt_units:
  assumes "- 1074 \<le> e1" "- 1074 \<le> e2"
  shows "flt (Finite m1 e1) (Finite m2 e2) \<longleftrightarrow> units m1 e1 < units m2 e2"
proof -
  let ?mn = "min e1 e2"
  have mn: "- 1074 \<le> ?mn" "?mn \<le> e1" "?mn \<le> e2" using assms by simp_all
  let ?c = "(2::int) ^ nat (?mn + 1074)"
  have c: "0 < ?c" by simp
  have u1: "units m1 e1 = m1 * 2 ^ nat (e1 - ?mn) * ?c" by (rule units_split [OF mn(1,2)])
  have u2: "units m2 e2 = m2 * 2 ^ nat (e2 - ?mn) * ?c" by (rule units_split [OF mn(1,3)])
  have "units m1 e1 < units m2 e2 \<longleftrightarrow> m1 * 2 ^ nat (e1 - ?mn) < m2 * 2 ^ nat (e2 - ?mn)"
    unfolding u1 u2 using c by (simp only: mult_less_cancel_right) simp
  moreover have "m1 = 0 \<Longrightarrow> (m1 * 2 ^ nat (e1 - ?mn) < m2 * 2 ^ nat (e2 - ?mn)) = (0 < m2)"
    by (simp add: zero_less_mult_iff)
  moreover have "m2 = 0 \<Longrightarrow> (m1 * 2 ^ nat (e1 - ?mn) < m2 * 2 ^ nat (e2 - ?mn)) = (m1 < 0)"
    by (simp add: mult_less_0_iff)
  ultimately show ?thesis by simp
qed

text \<open>The significand and the exponent that \<open>round64\<close> chooses for a positive magnitude.\<close>

lemma round_sig:
  fixes a e :: int
  assumes a: "0 < a" and e: "- 1074 \<le> e"
  defines "t \<equiv> max (int (bits a) + e - 53) (- 1074)"
  defines "s \<equiv> rne (a * 2 ^ nat (e - t)) (1 * 2 ^ nat (t - e))"
  shows "- 1074 \<le> t" and "0 \<le> s" and "s \<le> 2 ^ 53" and "- 1074 < t \<Longrightarrow> 2 ^ 52 \<le> s"
    and "\<And>mu eu. - 1074 \<le> eu \<Longrightarrow> mu < 2 ^ 53 \<Longrightarrow> units a e \<le> units mu eu \<Longrightarrow>
           units s t \<le> units mu eu"
    and "\<And>mu eu. - 1074 \<le> eu \<Longrightarrow> mu < 2 ^ 53 \<Longrightarrow> units mu eu \<le> units a e \<Longrightarrow>
           units mu eu \<le> units s t"
proof -
  show t: "- 1074 \<le> t" by (simp add: t_def)
  have bpos: "0 < bits a" using a by (rule bits_pos)
  from bits_bounds [OF a] have lo: "2 ^ (bits a - 1) \<le> a" and hi: "a < 2 ^ bits a" by simp_all
  have main: "0 \<le> s \<and> s \<le> 2 ^ 53 \<and> (- 1074 < t \<longrightarrow> 2 ^ 52 \<le> s) \<and>
      (\<forall>mu eu. - 1074 \<le> eu \<longrightarrow> mu < 2 ^ 53 \<longrightarrow> units a e \<le> units mu eu \<longrightarrow>
           units s t \<le> units mu eu) \<and>
      (\<forall>mu eu. - 1074 \<le> eu \<longrightarrow> mu < 2 ^ 53 \<longrightarrow> units mu eu \<le> units a e \<longrightarrow>
           units mu eu \<le> units s t)"
  proof (cases "t \<le> e")
    case True
    let ?k = "nat (e - t)"
    have s: "s = a * 2 ^ ?k" using True by (simp add: s_def rne_one)
    have "units a e = a * 2 ^ ?k * 2 ^ nat (t + 1074)" by (rule units_split [OF t True])
    also have "\<dots> = units (a * 2 ^ ?k) t" by (simp only: units_def)
    finally have u: "units s t = units a e" unfolding s by simp
    have "int (bits a) + e - 53 \<le> t" by (simp add: t_def)
    then have "bits a + ?k \<le> 53" using True by simp
    then have p53: "(2::int) ^ (bits a + ?k) \<le> 2 ^ 53" by (intro power_increasing) simp_all
    have "a * 2 ^ ?k \<le> 2 ^ bits a * 2 ^ ?k" using hi by (intro mult_right_mono) simp_all
    also have "\<dots> = 2 ^ (bits a + ?k)" by (simp only: power_add)
    also note p53
    finally have s53: "s \<le> 2 ^ 53" unfolding s .
    have s0: "0 \<le> s" unfolding s using a by simp
    have s52: "2 ^ 52 \<le> s" if "- 1074 < t"
    proof -
      from that have "t = int (bits a) + e - 53" by (simp add: t_def max_def split: if_splits)
      then have "bits a - 1 + ?k = 52" using True bpos by simp
      then have "(2::int) ^ 52 = 2 ^ (bits a - 1) * 2 ^ ?k" by (simp add: power_add [symmetric])
      also have "\<dots> \<le> a * 2 ^ ?k" using lo by simp
      finally show ?thesis unfolding s .
    qed
    from s0 s53 s52 u show ?thesis by simp
  next
    case False
    then have et: "e < t" by simp
    with e have tt: "t = int (bits a) + e - 53" by (simp add: t_def max_def split: if_splits)
    define j where "j = nat (t - e)"
    define E where "E = nat (e + 1074)"
    have j: "0 < j" "int j = t - e" using et by (simp_all add: j_def)
    have B: "bits a = 53 + j" using tt j(2) by simp
    have s: "s = rne a (2 ^ j)" using et by (simp add: s_def j_def)
    have tE: "nat (t + 1074) = j + E" using et e by (simp add: j_def E_def)
    have us: "units s t = s * 2 ^ (j + E)" by (simp add: units_def tE)
    have ua: "units a e = a * 2 ^ E" by (simp add: units_def E_def)
    have D: "(0::int) < 2 ^ j" by simp
    have q0: "0 \<le> a div 2 ^ j" using a by (simp add: pos_imp_zdiv_nonneg_iff)
    have "a < 2 ^ 53 * 2 ^ j" using hi B by (simp add: power_add)
    then have "a div 2 ^ j < 2 ^ 53" by (intro div_less_bound) simp_all
    then have s53: "s \<le> 2 ^ 53" using rne_bounds(2) [OF D, of a] unfolding s by linarith
    have s0: "0 \<le> s" using rne_bounds(1) [OF D, of a] q0 unfolding s by linarith
    have "2 ^ (52 + j) \<le> a" using lo B by simp
    then have "(2::int) ^ (52 + j) div 2 ^ j \<le> a div 2 ^ j" by (intro zdiv_mono1) simp_all
    then have "2 ^ 52 \<le> a div 2 ^ j" by (simp add: power_add)
    then have s52: "2 ^ 52 \<le> s" using rne_bounds(1) [OF D, of a] unfolding s by linarith
    have us': "units s t = rne a (2 ^ j) * 2 ^ (j + E)" using us s by simp
    have up: "units s t \<le> units mu eu"
      if "- 1074 \<le> eu" "mu < 2 ^ 53" "units a e \<le> units mu eu" for mu eu
    proof -
      from that(3) have "a * 2 ^ E \<le> mu * 2 ^ nat (eu + 1074)"
        unfolding ua by (simp only: units_def)
      from round_up_le [OF a B that(2) this] have "units s t \<le> mu * 2 ^ nat (eu + 1074)"
        unfolding us' .
      then show ?thesis by (simp only: units_def)
    qed
    have down: "units mu eu \<le> units s t"
      if "- 1074 \<le> eu" "mu < 2 ^ 53" "units mu eu \<le> units a e" for mu eu
    proof -
      from that(3) have "mu * 2 ^ nat (eu + 1074) \<le> a * 2 ^ E"
        unfolding ua by (simp only: units_def)
      from round_down_ge [OF a B that(2) this] have "mu * 2 ^ nat (eu + 1074) \<le> units s t"
        unfolding us' .
      then show ?thesis by (simp only: units_def)
    qed
    from s0 s53 s52 up down show ?thesis by blast
  qed
  from main show "0 \<le> s" and "s \<le> 2 ^ 53" and "- 1074 < t \<Longrightarrow> 2 ^ 52 \<le> s"
    by blast+
  from main show "\<And>mu eu. - 1074 \<le> eu \<Longrightarrow> mu < 2 ^ 53 \<Longrightarrow> units a e \<le> units mu eu \<Longrightarrow>
           units s t \<le> units mu eu"
    by blast
  from main show "\<And>mu eu. - 1074 \<le> eu \<Longrightarrow> mu < 2 ^ 53 \<Longrightarrow> units mu eu \<le> units a e \<Longrightarrow>
           units mu eu \<le> units s t"
    by blast
qed


lemma renorm_pack:
  assumes "0 \<le> s" "s \<le> 2 ^ 53" "- 1074 \<le> t"
  shows "\<exists>s' t'. renorm neg s t = pack neg s' t' \<and> units s' t' = units s t \<and>
           - 1074 \<le> t' \<and> t' \<le> t + 1 \<and> 0 \<le> s' \<and> s' < 2 ^ 53 \<and>
           (2 ^ 52 \<le> s \<longrightarrow> 2 ^ 52 \<le> s')"
proof (cases "s = 2 ^ 53")
  case True
  have "nat (t + 1 + 1074) = Suc (nat (t + 1074))" using assms(3) by simp
  then have "units (2 ^ 52) (t + 1) = units (2 ^ 53) t" by (simp add: units_def)
  then show ?thesis
    using True assms(3)
    by (intro exI [of _ "2 ^ 52"] exI [of _ "t + 1"]) (simp add: renorm_def)
next
  case False
  with assms show ?thesis
    by (intro exI [of _ s] exI [of _ t]) (simp add: renorm_def)
qed

lemma canonical_bounds:
  assumes "canonical m e"
  shows "- 1074 \<le> e" and "e \<le> 971" and "m < 2 ^ 53" and "- m < 2 ^ 53"
  using assms unfolding canonical_def by auto

lemma units_below_overflow:
  assumes "m < 2 ^ 53" "e \<le> 971" "- 1074 \<le> e" "971 < t" "2 ^ 52 \<le> s"
  shows "units m e < units s t"
proof -
  let ?K = "nat (e + 1074)" and ?T = "nat (t + 1074)"
  have KT: "Suc ?K \<le> ?T" using assms(2,3,4) by simp
  have "units m e < 2 ^ 53 * 2 ^ ?K" unfolding units_def using assms(1) by simp
  also have "\<dots> = 2 ^ 52 * 2 ^ Suc ?K" by simp
  also have "\<dots> \<le> 2 ^ 52 * 2 ^ ?T"
    using KT by (intro mult_left_mono power_increasing) simp_all
  also have "\<dots> \<le> s * 2 ^ ?T" using assms(5) by (intro mult_right_mono) simp_all
  finally show ?thesis by (simp only: units_def)
qed

lemma round64_le:
  assumes c: "canonical mu eu" and e: "- 1074 \<le> e" and le: "units n e \<le> units mu eu"
  shows "fle (round64 n 1 e) (Finite mu eu)"
proof -
  note cb = canonical_bounds [OF c]
  consider "n = 0" | "0 < n" | "n < 0" by linarith
  then show ?thesis
  proof cases
    case 1
    with le have "0 \<le> mu * 2 ^ nat (eu + 1074)" by (simp add: units_def)
    then have "0 \<le> mu" by (simp add: zero_le_mult_iff)
    with 1 show ?thesis by (simp add: round64_def)
  next
    case 2
    define t where "t = max (int (bits n) + e - 53) (- 1074)"
    define s where "s = rne (n * 2 ^ nat (e - t)) (1 * 2 ^ nat (t - e))"
    note rs = round_sig [OF 2 e, folded t_def, folded s_def]
    have r: "round64 n 1 e = renorm False s t"
      using 2 by (simp add: round64_def round_at_def flog2_one t_def s_def)
    from renorm_pack [OF rs(2,3,1), of False] obtain s' t'
      where p: "renorm False s t = pack False s' t'" "units s' t' = units s t"
        "- 1074 \<le> t'" "t' \<le> t + 1" "0 \<le> s'" "s' < 2 ^ 53" "2 ^ 52 \<le> s \<longrightarrow> 2 ^ 52 \<le> s'"
      by blast
    have u: "units s' t' \<le> units mu eu" using rs(5) [OF cb(1,3) le] p(2) by simp
    have "\<not> 971 < t'"
    proof
      assume o: "971 < t'"
      then have "- 1074 < t" using p(4) by simp
      then have "2 ^ 52 \<le> s'" using rs(4) p(7) by simp
      from units_below_overflow [OF cb(3,2,1) o this] u show False by simp
    qed
    then have "round64 n 1 e = Finite s' t'" using r p(1) by (simp add: pack_def)
    moreover have "fle (Finite s' t') (Finite mu eu)"
      using u by (simp only: fle_units [OF p(3) cb(1)])
    ultimately show ?thesis by (simp only:)
  next
    case 3
    define a where "a = - n"
    have a: "0 < a" using 3 by (simp add: a_def)
    define t where "t = max (int (bits a) + e - 53) (- 1074)"
    define s where "s = rne (a * 2 ^ nat (e - t)) (1 * 2 ^ nat (t - e))"
    note rs = round_sig [OF a e, folded t_def, folded s_def]
    have r: "round64 n 1 e = renorm True s t"
      using 3 a by (simp add: round64_def round_at_def flog2_one t_def s_def a_def)
    from renorm_pack [OF rs(2,3,1), of True] obtain s' t'
      where p: "renorm True s t = pack True s' t'" "units s' t' = units s t"
        "- 1074 \<le> t'" "t' \<le> t + 1" "0 \<le> s'" "s' < 2 ^ 53" "2 ^ 52 \<le> s \<longrightarrow> 2 ^ 52 \<le> s'"
      by blast
    show ?thesis
    proof (cases "971 < t'")
      case True
      then show ?thesis using r p(1) by (simp add: pack_def)
    next
      case False
      then have f: "round64 n 1 e = Finite (- s') t'" using r p(1) by (simp add: pack_def)
      have neg: "units (- s') t' = - units s t" using p(2) by (simp add: units_def)
      have "- units s t \<le> units mu eu"
      proof (cases "0 \<le> mu")
        case True
        have "0 \<le> units s t" using rs(2) by (simp add: units_def)
        moreover have "0 \<le> units mu eu" using True by (simp add: units_def)
        ultimately show ?thesis by linarith
      next
        case False
        have "units (- mu) eu \<le> units a e" using le by (simp add: units_def a_def)
        from rs(6) [OF cb(1,4) this] show ?thesis by (simp add: units_def)
      qed
      with neg have "fle (Finite (- s') t') (Finite mu eu)"
        by (simp only: fle_units [OF p(3) cb(1)])
      with f show ?thesis by (simp only:)
    qed
  qed
qed

lemma pack_fneg:
  "pack True s t = fneg (pack False s t)" "pack False s t = fneg (pack True s t)"
  by (simp_all add: pack_def)

lemma renorm_fneg:
  "renorm True s t = fneg (renorm False s t)" "renorm False s t = fneg (renorm True s t)"
  unfolding renorm_def by (simp_all only: pack_fneg(1)) (simp_all add: pack_def)

lemma round_at_fneg:
  "round_at True a d e t = fneg (round_at False a d e t)"
  "round_at False a d e t = fneg (round_at True a d e t)"
  unfolding round_at_def by (rule renorm_fneg)+

lemma round64_neg: "round64 (- n) d e = fneg (round64 n d e)"
proof -
  consider "n = 0" | "0 < n" | "n < 0" by linarith
  then show ?thesis
  proof cases
    case 1
    then show ?thesis by (simp add: round64_def)
  next
    case 2
    then have "round64 (- n) d e = round_at True n d e (max (flog2 n d + e - 52) (- 1074))"
      and "round64 n d e = round_at False n d e (max (flog2 n d + e - 52) (- 1074))"
      by (simp_all add: round64_def)
    then show ?thesis by (simp only: round_at_fneg(1))
  next
    case 3
    then have "round64 (- n) d e = round_at False (- n) d e (max (flog2 (- n) d + e - 52) (- 1074))"
      and "round64 n d e = round_at True (- n) d e (max (flog2 (- n) d + e - 52) (- 1074))"
      by (simp_all add: round64_def)
    then show ?thesis by (simp only: round_at_fneg(2))
  qed
qed

lemma fle_fneg: "fle (fneg x) (fneg y) = fle y x"
proof (cases x; cases y)
  fix m1 e1 m2 e2
  assume "x = Finite m1 e1" "y = Finite m2 e2"
  then show ?thesis by (simp add: min.commute)
qed simp_all

lemma round64_ge:
  assumes c: "canonical mu eu" and e: "- 1074 \<le> e" and le: "units mu eu \<le> units n e"
  shows "fle (Finite mu eu) (round64 n 1 e)"
proof -
  have c': "canonical (- mu) eu" using c by (simp add: canonical_def)
  have "units (- n) e \<le> units (- mu) eu" using le by (simp add: units_def)
  from round64_le [OF c' e this] have "fle (fneg (round64 n 1 e)) (fneg (Finite mu eu))"
    by (simp add: round64_neg)
  then show ?thesis by (simp only: fle_fneg)
qed


lemma pack_finite:
  assumes "pack neg s t = Finite m' e'"
  shows "e' = t" and "m' = (if neg then - s else s)"
  using assms by (simp_all add: pack_def split: if_splits)

lemma renorm_finite:
  assumes "renorm neg s t = Finite m' e'" "0 \<le> s"
  shows "t \<le> e'" and "neg \<or> 0 \<le> m'"
proof -
  show "t \<le> e'"
    using assms(1) pack_finite(1) [of neg "2 ^ 52" "t + 1" m' e'] pack_finite(1) [of neg s t m' e']
    by (cases "s = 2 ^ 53") (simp_all add: renorm_def)
  show "neg \<or> 0 \<le> m'"
    using assms pack_finite(2) [of neg "2 ^ 52" "t + 1" m' e'] pack_finite(2) [of neg s t m' e']
    by (cases "s = 2 ^ 53") (auto simp: renorm_def)
qed

lemma renorm_not_nan: "renorm neg s t \<noteq> NaN"
  by (simp add: renorm_def pack_def)

lemma renorm_pos_not_ninf: "renorm False s t \<noteq> NInf"
  by (simp add: renorm_def pack_def)

lemma rne_nonneg:
  assumes "0 \<le> a" "0 < d"
  shows "0 \<le> rne a d"
proof -
  have "0 \<le> a div d" using assms by (simp add: pos_imp_zdiv_nonneg_iff)
  with rne_bounds(1) [OF assms(2), of a] show ?thesis by linarith
qed

text \<open>The rounding of a number that is not negative: an infinity or a number that is not negative.\<close>

lemma round64_nonneg:
  assumes "0 \<le> n" "0 < d"
  shows "round64 n d e = PInf \<or> (\<exists>m' e'. round64 n d e = Finite m' e' \<and> 0 \<le> m' \<and> - 1074 \<le> e')"
proof (cases "n = 0")
  case True
  then show ?thesis by (simp add: round64_def)
next
  case False
  with assms have n: "0 < n" by simp
  define t where "t = max (flog2 n d + e - 52) (- 1074)"
  define s where "s = rne (n * 2 ^ nat (e - t)) (d * 2 ^ nat (t - e))"
  have t: "- 1074 \<le> t" by (simp add: t_def)
  have s: "0 \<le> s" unfolding s_def using n assms(2) by (intro rne_nonneg) simp_all
  have r: "round64 n d e = renorm False s t"
    using n by (simp add: round64_def round_at_def t_def s_def)
  show ?thesis
  proof (cases "renorm False s t")
    case (Finite m' e')
    from renorm_finite [OF this s] t r Finite show ?thesis by simp
  next
    case PInf
    with r show ?thesis by simp
  next
    case NInf
    with renorm_pos_not_ninf show ?thesis by blast
  next
    case NaN
    with renorm_not_nan show ?thesis by blast
  qed
qed

text \<open>A canonical number is its own rounding.\<close>

lemma round64_canonical:
  assumes "canonical m e"
  shows "round64 m 1 e = Finite m e"
proof (cases "m = 0")
  case True
  with assms show ?thesis by (simp add: round64_def canonical_def)
next
  case False
  define a where "a = \<bar>m\<bar>"
  have a: "0 < a" using False by (simp add: a_def)
  have am: "a < 2 ^ 53" "e \<le> 971" "- 1074 \<le> e"
    using assms by (auto simp: canonical_def a_def)
  have t: "max (int (bits a) + e - 53) (- 1074) = e"
  proof (cases "2 ^ 52 \<le> a")
    case True
    have "bits a = Suc 52" using True am(1) by (intro bits_unique) simp_all
    with am(3) show ?thesis by simp
  next
    case False
    with assms have e: "e = - 1074" by (auto simp: canonical_def a_def)
    from bits_bounds [OF a] False have "(2::int) ^ (bits a - 1) < 2 ^ 52" by linarith
    then have "bits a - 1 < 52" by (rule power_less_imp_less_exp [rotated]) simp
    then have "int (bits a) \<le> 52" by simp
    with e show ?thesis by simp
  qed
  have "round64 m 1 e = round_at (m < 0) a 1 e (max (flog2 a 1 + e - 52) (- 1074))"
    using False by (simp add: round64_def a_def)
  also have "flog2 a 1 + e - 52 = int (bits a) + e - 53" by (simp add: flog2_one [OF a])
  also have "round_at (m < 0) a 1 e (max (int (bits a) + e - 53) (- 1074)) = renorm (m < 0) a e"
    unfolding t by (simp add: round_at_def rne_one)
  also have "\<dots> = pack (m < 0) a e" using am(1) by (simp add: renorm_def)
  also have "\<dots> = Finite m e" using am(2) by (auto simp: pack_def a_def)
  finally show ?thesis .
qed

lemma padding_value: "padding = Finite 5404319552844595 (- 55)"
  by (simp add: float_eval)

lemma units_nonneg_iff: "0 \<le> units n e \<longleftrightarrow> 0 \<le> n"
  by (simp add: units_def zero_le_mult_iff)

lemma units_zero [simp]: "units 0 e = 0"
  by (simp add: units_def)

lemma units_minus: "units (- m) e = - units m e"
  by (simp add: units_def)

lemma fadd_units:
  assumes "- 1074 \<le> e1" "- 1074 \<le> e2"
  shows "\<exists>n e. - 1074 \<le> e \<and> fadd (Finite m1 e1) (Finite m2 e2) = round64 n 1 e \<and>
           units n e = units m1 e1 + units m2 e2"
proof -
  consider "m1 = 0" | "m1 \<noteq> 0" "m2 = 0" | "m1 \<noteq> 0" "m2 \<noteq> 0" by blast
  then show ?thesis
  proof cases
    case 1
    then show ?thesis using assms(2) by (intro exI [of _ m2] exI [of _ e2]) simp
  next
    case 2
    then show ?thesis using assms(1) by (intro exI [of _ m1] exI [of _ e1]) simp
  next
    case 3
    let ?mn = "min e1 e2"
    let ?n = "m1 * 2 ^ nat (e1 - ?mn) + m2 * 2 ^ nat (e2 - ?mn)"
    have mn: "- 1074 \<le> ?mn" "?mn \<le> e1" "?mn \<le> e2" using assms by simp_all
    have "units ?n ?mn = m1 * 2 ^ nat (e1 - ?mn) * 2 ^ nat (?mn + 1074)
                        + m2 * 2 ^ nat (e2 - ?mn) * 2 ^ nat (?mn + 1074)"
      by (simp only: units_def distrib_right)
    also have "\<dots> = units m1 e1 + units m2 e2"
      by (simp only: units_split [OF mn(1,2)] units_split [OF mn(1,3)])
    finally have "units ?n ?mn = units m1 e1 + units m2 e2" .
    with 3 mn(1) show ?thesis by (intro exI [of _ ?n] exI [of _ ?mn]) simp
  qed
qed

lemma fadd_finite_le:
  assumes "canonical m1 e1" "- 1074 \<le> e2" "m2 \<le> 0"
  shows "fle (fadd (Finite m1 e1) (Finite m2 e2)) (Finite m1 e1)"
proof -
  from fadd_units [OF canonical_bounds(1) [OF assms(1)] assms(2), of m1 m2] obtain n e
    where ne: "- 1074 \<le> e" "fadd (Finite m1 e1) (Finite m2 e2) = round64 n 1 e"
      "units n e = units m1 e1 + units m2 e2" by blast
  have "units m2 e2 \<le> 0" using assms(3) units_nonneg_iff [of "- m2" e2] by (simp add: units_minus)
  then have "units n e \<le> units m1 e1" using ne(3) by simp
  from round64_le [OF assms(1) ne(1) this] ne(2) show ?thesis by simp
qed

lemma fadd_finite_ge:
  assumes "canonical m1 e1" "- 1074 \<le> e2" "0 \<le> m2"
  shows "fle (Finite m1 e1) (fadd (Finite m1 e1) (Finite m2 e2))"
proof -
  from fadd_units [OF canonical_bounds(1) [OF assms(1)] assms(2), of m1 m2] obtain n e
    where ne: "- 1074 \<le> e" "fadd (Finite m1 e1) (Finite m2 e2) = round64 n 1 e"
      "units n e = units m1 e1 + units m2 e2" by blast
  have "0 \<le> units m2 e2" using assms(3) by (simp add: units_nonneg_iff)
  then have "units m1 e1 \<le> units n e" using ne(3) by simp
  from round64_ge [OF assms(1) ne(1) this] ne(2) show ?thesis by simp
qed

lemma fsub_nonneg:
  assumes "- 1074 \<le> e1" "- 1074 \<le> e2" "units m2 e2 \<le> units m1 e1"
  shows "fsub (Finite m1 e1) (Finite m2 e2) = PInf \<or>
         (\<exists>m e. fsub (Finite m1 e1) (Finite m2 e2) = Finite m e \<and> 0 \<le> m \<and> - 1074 \<le> e)"
proof -
  from fadd_units [OF assms(1,2), of m1 "- m2"] obtain n e
    where ne: "- 1074 \<le> e" "fadd (Finite m1 e1) (Finite (- m2) e2) = round64 n 1 e"
      "units n e = units m1 e1 + units (- m2) e2" by blast
  have "0 \<le> units n e" using ne(3) assms(3) by (simp add: units_minus)
  then have "0 \<le> n" by (simp add: units_nonneg_iff)
  from round64_nonneg [OF this, of 1 e] ne(2) show ?thesis by (simp add: fsub_def)
qed

lemma fmul_padding_nonneg:
  assumes "r = PInf \<or> (\<exists>m e. r = Finite m e \<and> 0 \<le> m \<and> - 1074 \<le> e)"
  shows "fmul r padding = PInf \<or>
         (\<exists>m e. fmul r padding = Finite m e \<and> 0 \<le> m \<and> - 1074 \<le> e)"
  using assms
proof
  assume "r = PInf"
  then show ?thesis by (simp add: fmul_def padding_value)
next
  assume "\<exists>m e. r = Finite m e \<and> 0 \<le> m \<and> - 1074 \<le> e"
  then obtain m e where r: "r = Finite m e" "0 \<le> m" by blast
  have "0 \<le> m * 5404319552844595" using r(2) by simp
  from round64_nonneg [OF this, of 1 "e + - 55"] r(1) show ?thesis
    by (simp add: fmul_def padding_value)
qed

lemma pad_lo_le:
  assumes "canonical m e"
    and "p = PInf \<or> (\<exists>mp ep. p = Finite mp ep \<and> 0 \<le> mp \<and> - 1074 \<le> ep)"
  shows "fle (fsub (Finite m e) p) (Finite m e)"
  using assms(2)
proof
  assume "p = PInf"
  then show ?thesis by (simp add: fsub_def)
next
  assume "\<exists>mp ep. p = Finite mp ep \<and> 0 \<le> mp \<and> - 1074 \<le> ep"
  then obtain mp ep where p: "p = Finite mp ep" "0 \<le> mp" "- 1074 \<le> ep" by blast
  have "fle (fadd (Finite m e) (Finite (- mp) ep)) (Finite m e)"
    using p(2) by (intro fadd_finite_le [OF assms(1) p(3)]) simp
  then show ?thesis by (simp add: fsub_def p(1))
qed

lemma pad_hi_ge:
  assumes "canonical m e"
    and "p = PInf \<or> (\<exists>mp ep. p = Finite mp ep \<and> 0 \<le> mp \<and> - 1074 \<le> ep)"
  shows "fle (Finite m e) (fadd (Finite m e) p)"
  using assms(2)
proof
  assume "p = PInf"
  then show ?thesis by simp
next
  assume "\<exists>mp ep. p = Finite mp ep \<and> 0 \<le> mp \<and> - 1074 \<le> ep"
  then obtain mp ep where p: "p = Finite mp ep" "0 \<le> mp" "- 1074 \<le> ep" by blast
  show ?thesis unfolding p(1) by (rule fadd_finite_ge [OF assms(1) p(3,2)])
qed

lemma fsub_self:
  "fsub (Finite m e) (Finite m e) = Finite 0 (- 1074)"
  by (simp add: fsub_def round64_def)

lemma fmul_zero_padding: "fmul (Finite 0 (- 1074)) padding = Finite 0 (- 1074)"
  by (simp add: fmul_def padding_value round64_def)

lemma fadd_zero:
  assumes "canonical m e"
  shows "fadd (Finite m e) (Finite 0 (- 1074)) = Finite m e"
proof (cases "m = 0")
  case True
  with assms show ?thesis by (simp add: round64_def canonical_def)
next
  case False
  then show ?thesis by (simp add: round64_canonical [OF assms])
qed

text \<open>One axis: the padded bounds contain the raw ones, and equal them on a range of zero.\<close>

lemma axis_padding:
  assumes lo: "canonical ml el" and hi: "canonical mh eh"
    and le: "units ml el \<le> units mh eh"
  shows "fle (pad_lo (Finite ml el) (Finite mh eh)) (Finite ml el)"
    and "fle (Finite mh eh) (pad_hi (Finite ml el) (Finite mh eh))"
    and "Finite mh eh = Finite ml el \<Longrightarrow>
           pad_lo (Finite ml el) (Finite mh eh) = Finite ml el \<and>
           pad_hi (Finite ml el) (Finite mh eh) = Finite mh eh"
proof -
  note r = fsub_nonneg [OF canonical_bounds(1) [OF hi] canonical_bounds(1) [OF lo] le]
  note p = fmul_padding_nonneg [OF r]
  show "fle (pad_lo (Finite ml el) (Finite mh eh)) (Finite ml el)"
    unfolding pad_lo_def by (rule pad_lo_le [OF lo p])
  show "fle (Finite mh eh) (pad_hi (Finite ml el) (Finite mh eh))"
    unfolding pad_hi_def by (rule pad_hi_ge [OF hi p])
  show "pad_lo (Finite ml el) (Finite mh eh) = Finite ml el \<and>
        pad_hi (Finite ml el) (Finite mh eh) = Finite mh eh"
    if "Finite mh eh = Finite ml el"
    using that fadd_zero [OF lo]
    by (simp add: pad_lo_def pad_hi_def fsub_self fmul_zero_padding) (simp add: fsub_def)
qed

lemma finite_float_cases:
  assumes "is_float64 v" "is_finite v"
  obtains m e where "v = Finite m e" "canonical m e"
  using assms by (cases v) simp_all

lemma fminimum_finite:
  assumes "canonical mv ev" "canonical mw ew"
  shows "\<exists>m e. fminimum (Finite mv ev) (Finite mw ew) = Finite m e \<and> canonical m e \<and>
           units m e \<le> units mv ev"
proof (cases "flt (Finite mv ev) (Finite mw ew)")
  case True
  then have "fminimum (Finite mv ev) (Finite mw ew) = Finite mv ev"
    by (simp only: fminimum_def) simp
  with assms(1) show ?thesis by simp
next
  case False
  then have "\<not> units mv ev < units mw ew"
    unfolding flt_units [OF canonical_bounds(1) [OF assms(1)] canonical_bounds(1) [OF assms(2)]] .
  moreover from False have "fminimum (Finite mv ev) (Finite mw ew) = Finite mw ew"
    by (simp only: fminimum_def) simp
  ultimately show ?thesis using assms(2) by simp
qed

lemma fmaximum_finite:
  assumes "canonical mv ev" "canonical mw ew"
  shows "\<exists>m e. fmaximum (Finite mv ev) (Finite mw ew) = Finite m e \<and> canonical m e \<and>
           units mv ev \<le> units m e"
proof (cases "flt (Finite mw ew) (Finite mv ev)")
  case True
  then have "fmaximum (Finite mv ev) (Finite mw ew) = Finite mv ev"
    by (simp only: fmaximum_def fgt_def) simp
  with assms(1) show ?thesis by simp
next
  case False
  then have "\<not> units mw ew < units mv ev"
    unfolding flt_units [OF canonical_bounds(1) [OF assms(2)] canonical_bounds(1) [OF assms(1)]] .
  moreover from False have "fmaximum (Finite mv ev) (Finite mw ew) = Finite mw ew"
    by (simp only: fmaximum_def fgt_def) simp
  ultimately show ?thesis using assms(2) by simp
qed

lemma foldl_fminimum:
  assumes "canonical m0 e0" "\<forall>w \<in> set vs. is_float64 w \<and> is_finite w"
  shows "\<exists>m e. foldl fminimum (Finite m0 e0) vs = Finite m e \<and> canonical m e \<and>
           units m e \<le> units m0 e0"
  using assms
proof (induction vs arbitrary: m0 e0)
  case Nil
  then show ?case by simp
next
  case (Cons w vs)
  from Cons.prems(2) obtain mw ew where w: "w = Finite mw ew" "canonical mw ew"
    by (auto elim: finite_float_cases)
  from fminimum_finite [OF Cons.prems(1) w(2)] obtain m1 e1
    where m1: "fminimum (Finite m0 e0) (Finite mw ew) = Finite m1 e1" "canonical m1 e1"
      "units m1 e1 \<le> units m0 e0" by blast
  from Cons.IH [OF m1(2)] Cons.prems(2) obtain m e
    where "foldl fminimum (Finite m1 e1) vs = Finite m e" "canonical m e"
      "units m e \<le> units m1 e1" by auto
  with m1 w(1) show ?case by (intro exI [of _ m] exI [of _ e]) simp
qed

lemma foldl_fmaximum:
  assumes "canonical m0 e0" "\<forall>w \<in> set vs. is_float64 w \<and> is_finite w"
  shows "\<exists>m e. foldl fmaximum (Finite m0 e0) vs = Finite m e \<and> canonical m e \<and>
           units m0 e0 \<le> units m e"
  using assms
proof (induction vs arbitrary: m0 e0)
  case Nil
  then show ?case by simp
next
  case (Cons w vs)
  from Cons.prems(2) obtain mw ew where w: "w = Finite mw ew" "canonical mw ew"
    by (auto elim: finite_float_cases)
  from fmaximum_finite [OF Cons.prems(1) w(2)] obtain m1 e1
    where m1: "fmaximum (Finite m0 e0) (Finite mw ew) = Finite m1 e1" "canonical m1 e1"
      "units m0 e0 \<le> units m1 e1" by blast
  from Cons.IH [OF m1(2)] Cons.prems(2) obtain m e
    where "foldl fmaximum (Finite m1 e1) vs = Finite m e" "canonical m e"
      "units m1 e1 \<le> units m e" by auto
  with m1 w(1) show ?case by (intro exI [of _ m] exI [of _ e]) simp
qed

lemma axis_bounds:
  assumes "vs \<noteq> []" "\<forall>v \<in> set vs. is_float64 v \<and> is_finite v"
  shows "\<exists>lo hi. amin vs = Inr lo \<and> amax vs = Inr hi \<and>
           fle (pad_lo lo hi) lo \<and> fle hi (pad_hi lo hi) \<and>
           (hi = lo \<longrightarrow> pad_lo lo hi = lo \<and> pad_hi lo hi = hi)"
proof -
  from assms(1) obtain v ws where vs: "vs = v # ws" by (cases vs) auto
  with assms(2) obtain m0 e0 where v: "v = Finite m0 e0" "canonical m0 e0"
    by (auto elim: finite_float_cases)
  have ws: "\<forall>w \<in> set ws. is_float64 w \<and> is_finite w" using assms(2) vs by simp
  from foldl_fminimum [OF v(2) ws] obtain ml el
    where lo: "foldl fminimum (Finite m0 e0) ws = Finite ml el" "canonical ml el"
      "units ml el \<le> units m0 e0" by blast
  from foldl_fmaximum [OF v(2) ws] obtain mh eh
    where hi: "foldl fmaximum (Finite m0 e0) ws = Finite mh eh" "canonical mh eh"
      "units m0 e0 \<le> units mh eh" by blast
  have le: "units ml el \<le> units mh eh" using lo(3) hi(3) by simp
  have "amin vs = Inr (Finite ml el)" "amax vs = Inr (Finite mh eh)"
    using vs v(1) lo(1) hi(1) by simp_all
  with axis_padding [OF lo(2) hi(2) le] show ?thesis by blast
qed

lemma padded_bounds_axes:
  assumes "amin (map fst X) = Inr x_min" "amax (map fst X) = Inr x_max"
    "amin (map snd X) = Inr y_min" "amax (map snd X) = Inr y_max"
  shows "padded_bounds X =
           Inr (pad_lo x_min x_max, pad_hi x_min x_max, pad_lo y_min y_max, pad_hi y_min y_max)"
  using assms by (simp add: padded_bounds_def Let_def pad_lo_def pad_hi_def)

lemma padded_bounds_finite:
  assumes "X \<noteq> []" and "finite_points X"
  shows "\<exists>x_min x_max y_min y_max.
           amin (map fst X) = Inr x_min \<and> amax (map fst X) = Inr x_max \<and>
           amin (map snd X) = Inr y_min \<and> amax (map snd X) = Inr y_max \<and>
           padded_bounds X =
             Inr (pad_lo x_min x_max, pad_hi x_min x_max,
                  pad_lo y_min y_max, pad_hi y_min y_max) \<and>
           fle (pad_lo x_min x_max) x_min \<and> fle x_max (pad_hi x_min x_max) \<and>
           fle (pad_lo y_min y_max) y_min \<and> fle y_max (pad_hi y_min y_max) \<and>
           (x_max = x_min \<longrightarrow> pad_lo x_min x_max = x_min \<and> pad_hi x_min x_max = x_max) \<and>
           (y_max = y_min \<longrightarrow> pad_lo y_min y_max = y_min \<and> pad_hi y_min y_max = y_max)"
proof -
  have xs: "map fst X \<noteq> []" "\<forall>v \<in> set (map fst X). is_float64 v \<and> is_finite v"
    and ys: "map snd X \<noteq> []" "\<forall>v \<in> set (map snd X). is_float64 v \<and> is_finite v"
    using assms by (auto simp: finite_points_def list_all_iff)
  from axis_bounds [OF xs] obtain x_min x_max
    where x: "amin (map fst X) = Inr x_min" "amax (map fst X) = Inr x_max"
      "fle (pad_lo x_min x_max) x_min" "fle x_max (pad_hi x_min x_max)"
      "x_max = x_min \<longrightarrow> pad_lo x_min x_max = x_min \<and> pad_hi x_min x_max = x_max"
    by blast
  from axis_bounds [OF ys] obtain y_min y_max
    where y: "amin (map snd X) = Inr y_min" "amax (map snd X) = Inr y_max"
      "fle (pad_lo y_min y_max) y_min" "fle y_max (pad_hi y_min y_max)"
      "y_max = y_min \<longrightarrow> pad_lo y_min y_max = y_min \<and> pad_hi y_min y_max = y_max"
    by blast
  from padded_bounds_axes [OF x(1,2) y(1,2)] x y show ?thesis by blast
qed

text \<open>An axis whose bounds are equal has no sample.\<close>

lemma arange_length_zero_range:
  assumes "arange_length x x res = Inr n"
  shows "n = 0"
proof (cases x)
  case (Finite m e)
  have "fdiv (Finite 0 (- 1074)) res = Finite 0 (- 1074)"
    by (simp add: fdiv_def res_value round64_def)
  with assms show ?thesis
    by (simp add: Finite arange_length_def fsub_self ceil_int_def to_intp_def)
next
  case PInf
  with assms show ?thesis by (simp add: arange_length_def fsub_def fdiv_def)
next
  case NInf
  with assms show ?thesis by (simp add: arange_length_def fsub_def fdiv_def)
next
  case NaN
  with assms show ?thesis by (simp add: arange_length_def fsub_def fdiv_def)
qed

lemma grid_nonempty: "grid X = Inr g \<Longrightarrow> X \<noteq> []"
  by (auto simp: grid_def padded_bounds_def)

lemma grid_samples_ranges:
  assumes "grid X = Inr (xx, yy)"
  shows "\<exists>x_min x_max y_min y_max nx ny.
           padded_bounds X = Inr (x_min, x_max, y_min, y_max) \<and>
           arange_length x_min x_max res = Inr nx \<and>
           arange_length y_min y_max res = Inr ny \<and>
           shape xx = (ny, nx) \<and> shape yy = (ny, nx) \<and>
           arange_item x_min res 0 = x_min \<and> arange_item y_min res 0 = y_min \<and>
           (\<forall>j < ny. \<forall>i < nx.
              item xx j i = arange_item x_min res i \<and> item yy j i = arange_item y_min res j) \<and>
           zip (ravel xx) (ravel yy) =
             concat (map (\<lambda>j. map (\<lambda>i. (arange_item x_min res i, arange_item y_min res j)) [0 ..< nx])
                       [0 ..< ny]) \<and>
           (x_max = x_min \<longrightarrow> nx = 0) \<and> (y_max = y_min \<longrightarrow> ny = 0) \<and>
           (finite_points X \<and> amax (map fst X) = amin (map fst X) \<longrightarrow> nx = 0) \<and>
           (finite_points X \<and> amax (map snd X) = amin (map snd X) \<longrightarrow> ny = 0)"
proof -
  from grid_samples [OF assms] obtain x_min x_max y_min y_max nx ny
    where b: "padded_bounds X = Inr (x_min, x_max, y_min, y_max)"
      and nx: "arange_length x_min x_max res = Inr nx"
      and ny: "arange_length y_min y_max res = Inr ny"
      and rest: "shape xx = (ny, nx)" "shape yy = (ny, nx)"
        "arange_item x_min res 0 = x_min" "arange_item y_min res 0 = y_min"
        "\<forall>j < ny. \<forall>i < nx.
           item xx j i = arange_item x_min res i \<and> item yy j i = arange_item y_min res j"
        "zip (ravel xx) (ravel yy) =
           concat (map (\<lambda>j. map (\<lambda>i. (arange_item x_min res i, arange_item y_min res j)) [0 ..< nx])
                     [0 ..< ny])"
    by blast
  have zx: "nx = 0" if "x_max = x_min"
    using nx that by (auto intro: arange_length_zero_range)
  have zy: "ny = 0" if "y_max = y_min"
    using ny that by (auto intro: arange_length_zero_range)
  have raw: "(amax (map fst X) = amin (map fst X) \<longrightarrow> x_max = x_min) \<and>
             (amax (map snd X) = amin (map snd X) \<longrightarrow> y_max = y_min)"
    if fin: "finite_points X"
  proof -
    from padded_bounds_finite [OF grid_nonempty [OF assms] fin] b
    obtain x0 x1 y0 y1
      where r: "amin (map fst X) = Inr x0" "amax (map fst X) = Inr x1"
        "amin (map snd X) = Inr y0" "amax (map snd X) = Inr y1"
        "x_min = pad_lo x0 x1" "x_max = pad_hi x0 x1" "y_min = pad_lo y0 y1" "y_max = pad_hi y0 y1"
        "x1 = x0 \<longrightarrow> pad_lo x0 x1 = x0 \<and> pad_hi x0 x1 = x1"
        "y1 = y0 \<longrightarrow> pad_lo y0 y1 = y0 \<and> pad_hi y0 y1 = y1"
      by auto
    then show ?thesis by auto
  qed
  from zx zy raw have z: "(x_max = x_min \<longrightarrow> nx = 0) \<and> (y_max = y_min \<longrightarrow> ny = 0) \<and>
      (finite_points X \<and> amax (map fst X) = amin (map fst X) \<longrightarrow> nx = 0) \<and>
      (finite_points X \<and> amax (map snd X) = amin (map snd X) \<longrightarrow> ny = 0)"
    by blast
  show ?thesis
    by (intro exI [of _ x_min] exI [of _ x_max] exI [of _ y_min] exI [of _ y_max]
        exI [of _ nx] exI [of _ ny] conjI b nx ny rest z [THEN conjunct1]
        z [THEN conjunct2, THEN conjunct1] z [THEN conjunct2, THEN conjunct2, THEN conjunct1]
        z [THEN conjunct2, THEN conjunct2, THEN conjunct2])
qed

lemma big_values:
  "dbl 10000000000000000 1 = Finite 5000000000000000 1"
  "dbl 10000000000000002 1 = Finite 5000000000000001 1"
  by (simp_all add: float_eval)

lemma bounds_big:
  "padded_bounds X_big =
     Inr (Finite 5000000000000000 1, Finite 5000000000000001 1,
          Finite (- 5404319552844595) (- 55), Finite 5179139571476070 (- 52))"
  by (simp add: padded_bounds_def X_big_def big_values Let_def float_eval)

lemma raw_big:
  "amin (map fst X_big) = Inr (Finite 5000000000000000 1)"
  "amax (map fst X_big) = Inr (Finite 5000000000000001 1)"
  by (simp_all add: X_big_def big_values fminimum_def fmaximum_def fgt_def)

lemma finite_two: "finite_points X_two"
  by (simp add: finite_points_def X_two_def float_eval canonical_def)


section \<open>The claims\<close>

subsection \<open>C5: an empty array of points\<close>

text \<open>
  C5. When \<open>X\<close> has no point, \<^verbatim>\<open>plot_decision_boundary\<close> fails with numpy's error for a
  reduction of an empty array, raised by the first \<^verbatim>\<open>min\<close> of line 12. It fails before
  anything else happens: the classifier's state is the initial one (no call of \<open>f\<close>, so
  no grid was walked) and the plotting library's state is the initial one (no drawing
  call).
\<close>

theorem empty_points_fail_first:
  "plot_decision_boundary f plt [] Y s p = (Inl (Numpy ZeroSizeReduction), s, p)"
  by (simp add: plot_decision_boundary_def label_grid_def grid_def padded_bounds_def)

theorem empty_points_fail_first_witness:
  "plot_decision_boundary (logged score_x) (recording pyplot) [] [0, 1] (0, []) ([], []) =
     (Inl (Numpy ZeroSizeReduction), (0, []), ([], []))"
  by (rule empty_points_fail_first)

subsection \<open>C8: the shape of the label grid\<close>

text \<open>
  C8. Take any run of \<^verbatim>\<open>plot_decision_boundary\<close> on points for which the coordinate grid
  \<open>(xx, yy)\<close> is built, with a classifier that never raises, the drawing calls recorded.
  The lines up to the \<^verbatim>\<open>reshape\<close> return a label grid \<open>Z\<close>: the \<^verbatim>\<open>reshape\<close> does not fail,
  the shape of \<open>Z\<close> is the shape of \<open>xx\<close> and of \<open>yy\<close>, and its number of items is the
  product of the two dimensions. This \<open>Z\<close> is what the function draws: the first drawing
  call is \<^verbatim>\<open>figure\<close>; when the library accepts it, the second is
  \<^verbatim>\<open>contourf(xx, yy, Z, cmap=Spectral)\<close>; and every \<^verbatim>\<open>contourf\<close> call of the run has these
  three arrays as arguments. The labels \<open>Y\<close> play no part. (The grid is built for every
  non-empty \<open>X\<close> on which \<^verbatim>\<open>arange\<close> can compute its lengths.)
\<close>

theorem label_grid_shape:
  assumes "grid X = Inr (xx, yy)" and "never_raises f"
    and "plot_decision_boundary f (recording plt) X Y s (p, []) = (r, s', (p', calls))"
  shows "\<exists>Z. label_grid f X s = (Inr (xx, yy, Z), s') \<and>
           shape Z = shape xx \<and> shape Z = shape yy \<and>
           length (data Z) = fst (shape Z) * snd (shape Z) \<and>
           take 1 calls = [Figure 8 6] \<and>
           (fst (plt (Figure 8 6) p) = Inr () \<longrightarrow>
              take 2 calls = [Figure 8 6, Contourf xx yy Z Spectral]) \<and>
           (\<forall>xx' yy' Z' cm. Contourf xx' yy' Z' cm \<in> set calls \<longrightarrow>
              xx' = xx \<and> yy' = yy \<and> Z' = Z \<and> shape Z' = shape xx' \<and> shape Z' = shape yy')"
proof -
  from label_grid_total [OF assms(1,2), of s] obtain Z s1
    where lg: "label_grid f X s = (Inr (xx, yy, Z), s1)"
      and sh: "shape Z = shape xx" "shape Z = shape yy"
        "length (data Z) = fst (shape Z) * snd (shape Z)"
    by blast
  note run = recorded_run [OF lg assms(3)]
  have c: "xx' = xx \<and> yy' = yy \<and> Z' = Z \<and> shape Z' = shape xx' \<and> shape Z' = shape yy'"
    if "Contourf xx' yy' Z' cm \<in> set calls" for xx' yy' Z' cm
    using run(4) [OF that] sh by simp
  show ?thesis
    using lg run(1,2,3) sh c by (intro exI [of _ Z]) blast
qed

theorem label_grid_shape_witness:
  "grid X_two = Inr (xx_two, yy_two) \<and> never_raises score_x \<and>
   plot_decision_boundary (logged score_x) (recording pyplot) X_two [0, 1] (0, []) ([], []) =
     (Inr (), (4, log_two), (calls_two [0, 1], calls_two [0, 1])) \<and>
   fst (pyplot (Figure 8 6) []) = Inr () \<and>
   Contourf xx_two yy_two Z_two Spectral \<in> set (calls_two [0, 1]) \<and>
   (\<exists>Z. label_grid (logged score_x) X_two (0, []) = (Inr (xx_two, yy_two, Z), (4, log_two)) \<and>
      shape Z = shape xx_two \<and> shape Z = shape yy_two \<and>
      length (data Z) = fst (shape Z) * snd (shape Z) \<and>
      take 1 (calls_two [0, 1]) = [Figure 8 6] \<and>
      take 2 (calls_two [0, 1]) = [Figure 8 6, Contourf xx_two yy_two Z Spectral] \<and>
      Z_two = Z)"
proof -
  note run = run_two [OF accepts_two(1)]
  note nr = never_raises_logged [OF never_raises_score_x]
  have fig: "fst (pyplot (Figure 8 6) []) = Inr ()" by simp
  have mem: "Contourf xx_two yy_two Z_two Spectral \<in> set (calls_two [0, 1])"
    by (simp add: calls_two_def)
  from label_grid_shape [OF grid_two nr run] fig mem
  have "\<exists>Z. label_grid (logged score_x) X_two (0, []) = (Inr (xx_two, yy_two, Z), (4, log_two)) \<and>
      shape Z = shape xx_two \<and> shape Z = shape yy_two \<and>
      length (data Z) = fst (shape Z) * snd (shape Z) \<and>
      take 1 (calls_two [0, 1]) = [Figure 8 6] \<and>
      take 2 (calls_two [0, 1]) = [Figure 8 6, Contourf xx_two yy_two Z Spectral] \<and>
      Z_two = Z"
    by blast
  with grid_two never_raises_score_x run fig mem show ?thesis by (intro conjI)
qed

subsection \<open>C1: the labels are the thresholded scores\<close>

text \<open>
  C1. Take any run of \<^verbatim>\<open>plot_decision_boundary\<close>, with the calls of \<open>f\<close> logged and the
  drawing calls recorded, and a call \<^verbatim>\<open>contourf(xx, yy, Z)\<close> recorded in it: \<open>Z\<close> is the
  label grid the function has produced and drawn. These three arrays are what the lines
  up to the \<^verbatim>\<open>reshape\<close> returned, and \<open>Z\<close> has the shape of \<open>xx\<close>. For every cell \<open>(j, i)\<close>
  of the grid, call number \<open>j * columns + i\<close> of \<open>f\<close> was made at the coordinate
  \<open>[xx[j][i], yy[j][i]]\<close> and returned a score \<open>r\<close>; the label \<open>Z[j][i]\<close> is 0 or 1, it
  is 1 exactly when \<open>r > 0.5\<close>, and a score equal to \<open>0.5\<close> gives the label 0.
\<close>

theorem labels_threshold:
  assumes "plot_decision_boundary (logged f) (recording plt) X Y (s, []) (p, []) =
             (out, (s', log), (p', calls))"
    and "Contourf xx yy Z cm \<in> set calls"
    and "j < fst (shape Z)" and "i < snd (shape Z)"
  shows "label_grid (logged f) X (s, []) = (Inr (xx, yy, Z), (s', log)) \<and>
         shape Z = shape xx \<and>
         (\<exists>r. log ! (j * snd (shape Z) + i) = ([item xx j i, item yy j i], Inr r) \<and>
              (item Z j i = 0 \<or> item Z j i = 1) \<and>
              (item Z j i = 1 \<longleftrightarrow> fgt r half) \<and>
              (r = half \<longrightarrow> item Z j i = 0))"
proof -
  note lg = recorded_contourf [OF assms(1,2)]
  note ok = label_grid_ok [OF lg]
  from grid_meshgrid [OF ok(1)] obtain xs ys where m: "(xx, yy) = meshgrid xs ys"
    by blast
  let ?ps = "zip (ravel xx) (ravel yy)"
  let ?k = "j * length xs + i"
  have sh: "shape Z = (length ys, length xs)"
    using ok(3) meshgrid_shape(1) [OF m] by simp
  with assms(3,4) have j: "j < length ys" and i: "i < length xs" by simp_all
  have lps: "length ?ps = length ys * length xs"
    using meshgrid_shape [OF m] by simp
  from classify_loop_logged_ok [OF ok(2)] obtain rs where rs: "length rs = length ?ps"
    "log = zip (map (\<lambda>(x, y). [x, y]) ?ps) (map Inr rs)"
    "data Z = map (\<lambda>r. if fgt r half then 1 else 0) rs"
    by auto
  have k: "?k < length rs" using cell_index_less [OF j i] rs(1) lps by simp
  have "log ! ?k = ([item xx j i, item yy j i], Inr (rs ! ?k))"
    using k rs(1,2) meshgrid_zip_nth [OF m j i] by simp
  moreover have "item Z j i = (if fgt (rs ! ?k) half then 1 else 0)"
    using k rs(3) sh by (simp add: item_def)
  ultimately have "\<exists>r. log ! (j * snd (shape Z) + i) = ([item xx j i, item yy j i], Inr r) \<and>
              (item Z j i = 0 \<or> item Z j i = 1) \<and>
              (item Z j i = 1 \<longleftrightarrow> fgt r half) \<and>
              (r = half \<longrightarrow> item Z j i = 0)"
    using sh flt_irrefl [of half] by (intro exI [of _ "rs ! ?k"]) (simp add: fgt_def)
  with lg ok(3) show ?thesis by (intro conjI)
qed

theorem labels_threshold_witness:
  "plot_decision_boundary (logged score_x) (recording pyplot) X_two [0, 1] (0, []) ([], []) =
     (Inr (), (4, log_two), (calls_two [0, 1], calls_two [0, 1])) \<and>
   Contourf xx_two yy_two Z_two Spectral \<in> set (calls_two [0, 1]) \<and>
   (0::nat) < fst (shape Z_two) \<and> (1::nat) < snd (shape Z_two) \<and>
   label_grid (logged score_x) X_two (0, []) = (Inr (xx_two, yy_two, Z_two), (4, log_two)) \<and>
   shape Z_two = shape xx_two \<and>
   (\<exists>r. log_two ! (0 * snd (shape Z_two) + 1) = ([item xx_two 0 1, item yy_two 0 1], Inr r) \<and>
        (item Z_two 0 1 = 0 \<or> item Z_two 0 1 = 1) \<and>
        (item Z_two 0 1 = 1 \<longleftrightarrow> fgt r half) \<and>
        (r = half \<longrightarrow> item Z_two 0 1 = 0))"
proof -
  note run = run_two [OF accepts_two(1)]
  have mem: "Contourf xx_two yy_two Z_two Spectral \<in> set (calls_two [0, 1])"
    by (simp add: calls_two_def)
  have j: "(0::nat) < fst (shape Z_two)" and i: "(1::nat) < snd (shape Z_two)"
    by (simp_all add: Z_two_def)
  note t = labels_threshold [OF run mem j i]
  from t [THEN conjunct1] t [THEN conjunct2, THEN conjunct1] t [THEN conjunct2, THEN conjunct2]
    run mem j i
  show ?thesis by (intro conjI)
qed

subsection \<open>C4: one call of the classifier for each cell, in row-major order\<close>



subsection \<open>C7: an exception of the classifier\<close>

text \<open>
  C7. If some call of \<open>f\<close> during \<^verbatim>\<open>plot_decision_boundary\<close> raised \<open>err\<close>, then the
  function's result is that same \<open>err\<close>; that call is the last one \<open>f\<close> received (no
  retry, no later cell) and all the calls before it returned scores; and the plotting
  library received no call at all and its state is unchanged: no figure was opened.
\<close>

theorem classifier_error_propagates:
  assumes "plot_decision_boundary (logged f) (recording plt) X Y (s, []) (p, []) =
             (r, (s', log), (p', calls))"
    and "(v, Inl err) \<in> set log"
  shows "r = Inl err \<and> calls = [] \<and> p' = p \<and> last log = (v, Inl err) \<and>
         (\<forall>k < length log - 1. \<exists>sc. snd (log ! k) = Inr sc)"
proof -
  obtain out where lg: "label_grid (logged f) X (s, []) = (out, (s', log))"
    using plot_classifier_state [OF assms(1)] by (cases "label_grid (logged f) X (s, [])") simp
  have nonempty: "log \<noteq> []" using assms(2) by auto
  then obtain xx yy where g: "grid X = Inr (xx, yy)"
    using lg unfolding label_grid_def by (cases "grid X") auto
  let ?ps = "zip (ravel xx) (ravel yy)"
  obtain lo where loop: "classify_loop (logged f) ?ps [] (s, []) = (lo, (s', log))"
    using lg g unfolding label_grid_def
    by (auto split: prod.splits sum.splits)
  show ?thesis
  proof (cases lo)
    case (Inr Z)
    from classify_loop_logged_ok [OF loop [unfolded Inr]] obtain rs
      where "log = zip (map (\<lambda>(x, y). [x, y]) ?ps) (map Inr rs)" by auto
    with assms(2) have False by (auto dest!: set_zip_rightD)
    then show ?thesis ..
  next
    case (Inl e)
    from classify_loop_logged_err [OF loop [unfolded Inl]] obtain rs
      where rs: "length rs < length ?ps"
        "log = zip (map (\<lambda>(x, y). [x, y]) (take (length rs) ?ps)) (map Inr rs)
               @ [((\<lambda>(x, y). [x, y]) (?ps ! length rs), Inl e)]"
      by auto
    let ?pre = "zip (map (\<lambda>(x, y). [x, y]) (take (length rs) ?ps)) (map Inr rs)"
    have pre: "length ?pre = length rs" using rs(1) by simp
    have "(v, Inl err) \<notin> set ?pre" by (auto dest!: set_zip_rightD)
    with assms(2) rs(2) have last: "(v, Inl err) = ((\<lambda>(x, y). [x, y]) (?ps ! length rs), Inl e)"
      by auto
    then have e: "e = err" by simp
    have "label_grid (logged f) X (s, []) = (Inl err, (s', log))"
      using g loop Inl e unfolding label_grid_def by simp
    from plot_classifier_error [OF this, of "recording plt" Y "(p, [])"] assms(1)
    have res: "r = Inl err" "calls = []" "p' = p" by simp_all
    have l: "last log = (v, Inl err)" using rs(2) last by simp
    have "\<exists>sc. snd (log ! k) = Inr sc" if "k < length log - 1" for k
    proof -
      from that rs(2) pre have k: "k < length rs" by simp
      then have "log ! k = ?pre ! k" using rs(2) pre by (simp add: nth_append)
      also have "snd \<dots> = Inr (rs ! k)" using k rs(1) by simp
      finally show ?thesis by blast
    qed
    with res l show ?thesis by blast
  qed
qed

theorem classifier_error_propagates_witness:
  "plot_decision_boundary (logged raise_second) (recording pyplot) X_two [0, 1] (0, []) ([], []) =
     (Inl (Other ClassifierError), (2, log_raise), ([], [])) \<and>
   ([s_hi, s_lo], Inl (Other ClassifierError)) \<in> set log_raise \<and>
   last log_raise = ([s_hi, s_lo], Inl (Other ClassifierError)) \<and>
   (\<exists>sc. snd (log_raise ! 0) = Inr sc)"
proof -
  note run = run_raise [of "[0, 1]"]
  have m: "([s_hi, s_lo], Inl (Other ClassifierError)) \<in> set log_raise"
    by (simp add: log_raise_def)
  have k: "0 < length log_raise - 1"
    by (simp add: log_raise_def)
  from classifier_error_propagates [OF run m] k
  have "last log_raise = ([s_hi, s_lo], Inl (Other ClassifierError))"
    and "\<exists>sc. snd (log_raise ! 0) = Inr sc"
    by blast+
  with run m show ?thesis by (intro conjI)
qed

subsection \<open>C9: the labels reach the scatter call only\<close>

text \<open>
  C9. Two calls of \<^verbatim>\<open>plot_decision_boundary\<close> that differ in the labels only (\<open>Y\<close> and
  \<open>Y'\<close>) leave the classifier in the same state (with a logged \<open>f\<close>: the same calls at
  the same coordinates with the same outcomes), and send the plotting library the same
  drawing calls with the same arguments, the grid and the label grid of the contour
  call among them, except for the labels argument of the scatter call.
\<close>

theorem labels_reach_only_scatter:
  "fst (snd (plot_decision_boundary f (recording plt) X Y s (p, []))) =
   fst (snd (plot_decision_boundary f (recording plt) X Y' s (p, []))) \<and>
   map (with_labels Y') (snd (snd (snd (plot_decision_boundary f (recording plt) X Y s (p, []))))) =
   snd (snd (snd (plot_decision_boundary f (recording plt) X Y' s (p, []))))"
  unfolding plot_decision_boundary_def
  by (auto simp: recording_apply split: prod.splits sum.splits)

theorem labels_reach_only_scatter_witness:
  "fst (snd (plot_decision_boundary (logged score_x) (recording pyplot) X_two [0, 1] (0, []) ([], []))) =
   fst (snd (plot_decision_boundary (logged score_x) (recording pyplot) X_two [1, 0] (0, []) ([], []))) \<and>
   map (with_labels [1, 0])
     (snd (snd (snd (plot_decision_boundary (logged score_x) (recording pyplot) X_two [0, 1] (0, []) ([], []))))) =
   snd (snd (snd (plot_decision_boundary (logged score_x) (recording pyplot) X_two [1, 0] (0, []) ([], [])))) \<and>
   snd (snd (snd (plot_decision_boundary (logged score_x) (recording pyplot) X_two [1, 0] (0, []) ([], [])))) =
     [Figure 8 6, Contourf xx_two yy_two Z_two Spectral,
      Scatter (map fst X_two) (map snd X_two) 35 [1, 0] Spectral]"
  using labels_reach_only_scatter [of "logged score_x" pyplot X_two "[0, 1]" "(0, [])" "[]" "[1, 0]"]
  by (simp add: run_two [OF accepts_two(1)] run_two [OF accepts_two(2)] calls_two_def)

subsection \<open>C6: labels of another length than the points\<close>

text \<open>
  C6, as the spec states it: if \<open>Y\<close> and \<open>X\<close> differ in length, the function fails
  with a length-mismatch error. The function has no such check, and \<^verbatim>\<open>scatter\<close> does not
  always have one: for the two points of \<open>X_two\<close> and the three labels \<open>[0, 1, 0]\<close>,
  \<^verbatim>\<open>scatter\<close> reads the labels as one RGB colour, and the function returns \<open>None\<close> after
  four calls of the classifier and the three drawing calls.
\<close>

theorem length_mismatch_counterexample:
  "length [0, 1, 0 :: int] \<noteq> length X_two \<and>
   plot_decision_boundary score_x pyplot X_two [0, 1, 0] 0 [] =
     (Inr (), 4, calls_two [0, 1, 0])"
  unfolding plot_decision_boundary_def label_grid_two_plain
  by (simp add: calls_two_def scatter_accepts_def xx_two_def yy_two_def Z_two_def X_two_def)

text \<open>
  C6, amended. \<^verbatim>\<open>plot_decision_boundary\<close> never compares the length of \<open>Y\<close> with the
  length of \<open>X\<close>; a mismatch can be noticed by \<^verbatim>\<open>scatter\<close> only, the last step. With
  matplotlib as the plotting library, a classifier that never raises and points for
  which the grid is built, a \<open>Y\<close> of another length than \<open>X\<close> has this outcome. The
  classifier is called on the whole grid and the figure is opened. A grid of fewer than
  two rows or two columns is refused by \<^verbatim>\<open>contourf\<close>: its \<^verbatim>\<open>TypeError\<close> is the result,
  and \<open>Y\<close> is never looked at. Otherwise the contour is drawn, and then \<^verbatim>\<open>scatter\<close>
  raises its \<^verbatim>\<open>ValueError\<close> for the size of \<open>c\<close>, which is the result; except when \<open>Y\<close>
  is empty, or is three or four numbers from 0 to 1: then \<^verbatim>\<open>scatter\<close> draws the points
  in no colour or in one colour, and the result is \<open>None\<close>.
\<close>

theorem length_mismatch_reaches_scatter:
  assumes "grid X = Inr (xx, yy)" and "never_raises f"
    and "length Y \<noteq> length X"
  shows "\<exists>Z s'. label_grid f X s = (Inr (xx, yy, Z), s') \<and>
           plot_decision_boundary f pyplot X Y s p =
             (if fst (shape xx) < 2 \<or> snd (shape xx) < 2
              then (Inl (Other TypeError_z_shape), s', p @ [Figure 8 6])
              else if Y = [] \<or>
                      ((length Y = 3 \<or> length Y = 4) \<and> list_all (\<lambda>v. 0 \<le> v \<and> v \<le> 1) Y)
              then (Inr (), s',
                    p @ [Figure 8 6, Contourf xx yy Z Spectral,
                         Scatter (map fst X) (map snd X) 35 Y Spectral])
              else (Inl (Other ValueError_c_size), s',
                    p @ [Figure 8 6, Contourf xx yy Z Spectral]))"
proof -
  from label_grid_total [OF assms(1,2), of s] obtain Z s'
    where lg: "label_grid f X s = (Inr (xx, yy, Z), s')"
      and sh: "shape Z = shape xx" "shape Z = shape yy"
    by blast
  have "plot_decision_boundary f pyplot X Y s p =
          (if fst (shape xx) < 2 \<or> snd (shape xx) < 2
           then (Inl (Other TypeError_z_shape), s', p @ [Figure 8 6])
           else if Y = [] \<or>
                   ((length Y = 3 \<or> length Y = 4) \<and> list_all (\<lambda>v. 0 \<le> v \<and> v \<le> 1) Y)
           then (Inr (), s',
                 p @ [Figure 8 6, Contourf xx yy Z Spectral,
                      Scatter (map fst X) (map snd X) 35 Y Spectral])
           else (Inl (Other ValueError_c_size), s',
                 p @ [Figure 8 6, Contourf xx yy Z Spectral]))"
    using sh assms(3)
    by (auto simp: plot_decision_boundary_def lg scatter_accepts_def)
  with lg show ?thesis by blast
qed

theorem length_mismatch_reaches_scatter_witness:
  "grid X_two = Inr (xx_two, yy_two) \<and> never_raises score_x \<and>
   length [7 :: int] \<noteq> length X_two \<and>
   plot_decision_boundary score_x pyplot X_two [7] 0 [] =
     (Inl (Other ValueError_c_size), 4, [Figure 8 6, Contourf xx_two yy_two Z_two Spectral])"
proof -
  have len: "length [7 :: int] \<noteq> length X_two"
    by (simp add: X_two_def)
  from length_mismatch_reaches_scatter [OF grid_two never_raises_score_x len, of 0 "[]"]
  have "plot_decision_boundary score_x pyplot X_two [7] 0 [] =
     (Inl (Other ValueError_c_size), 4, [Figure 8 6, Contourf xx_two yy_two Z_two Spectral])"
    by (simp add: label_grid_two_plain xx_two_def)
  with grid_two never_raises_score_x len show ?thesis by (intro conjI)
qed

subsection \<open>C3: the grid of sample coordinates\<close>

text \<open>
  C3, as the spec states it: for every non-empty dataset the grid covers the padded
  bounding box with step 0.01. For the single point \<open>(5, 5)\<close> the padded box is that
  point, on both axes \<^verbatim>\<open>arange(5, 5, 0.01)\<close> is empty, and the grid has shape \<open>(0, 0)\<close>:
  it holds no sample at all, so it covers nothing.
\<close>

theorem single_point_grid_empty_counterexample:
  "padded_bounds X_point = Inr (dbl 5 1, dbl 5 1, dbl 5 1, dbl 5 1) \<and>
   grid X_point = Inr (\<lparr>shape = (0, 0), data = []\<rparr>, \<lparr>shape = (0, 0), data = []\<rparr>)"
proof -
  have "arange (dbl 5 1) (dbl 5 1) res = Inr []"
    by (simp add: arange_def arange_length_def to_intp_def float_eval)
  then show ?thesis
    using bounds_point by (simp add: grid_def meshgrid_def)
qed

text \<open>
  C3, amended. Whenever the grid \<open>(xx, yy)\<close> is built, it is the mesh of
  \<^verbatim>\<open>arange(x_min, x_max, 0.01)\<close> and \<^verbatim>\<open>arange(y_min, y_max, 0.01)\<close> on the padded bounds.
  The number of samples of an axis is \<open>arange_length\<close>: \<open>ceil ((max - min) / 0.01)\<close>
  computed in binary64, and none when that is zero, negative or \<open>2 ^ 63\<close>. Sample 0 is the
  padded minimum, sample 1 is \<open>min + 0.01\<close>, and sample \<open>k\<close> is
  \<open>min + k * ((min + 0.01) - min)\<close>, each operation rounded (\<open>arange_item\<close>). Both
  arrays have as many rows as \<open>y\<close> samples and as many columns as \<open>x\<close> samples, with
  \<open>xx[j][i]\<close> the \<open>x\<close> sample \<open>i\<close> and \<open>yy[j][i]\<close> the \<open>y\<close> sample \<open>j\<close>; the flattened
  coordinates run row by row, \<open>y\<close> in the outer position and \<open>x\<close> in the inner one. An
  axis whose padded bounds are equal has no sample, and the grid is then empty; for
  points of finite coordinates that is every axis on which the data have range zero.
\<close>

theorem grid_is_mesh_of_aranges:
  assumes "grid X = Inr (xx, yy)"
  shows "\<exists>x_min x_max y_min y_max nx ny.
           padded_bounds X = Inr (x_min, x_max, y_min, y_max) \<and>
           arange_length x_min x_max res = Inr nx \<and>
           arange_length y_min y_max res = Inr ny \<and>
           shape xx = (ny, nx) \<and> shape yy = (ny, nx) \<and>
           arange_item x_min res 0 = x_min \<and> arange_item y_min res 0 = y_min \<and>
           (\<forall>j < ny. \<forall>i < nx.
              item xx j i = arange_item x_min res i \<and> item yy j i = arange_item y_min res j) \<and>
           zip (ravel xx) (ravel yy) =
             concat (map (\<lambda>j. map (\<lambda>i. (arange_item x_min res i, arange_item y_min res j)) [0 ..< nx])
                       [0 ..< ny]) \<and>
           (x_max = x_min \<longrightarrow> nx = 0) \<and> (y_max = y_min \<longrightarrow> ny = 0) \<and>
           (finite_points X \<and> amax (map fst X) = amin (map fst X) \<longrightarrow> nx = 0) \<and>
           (finite_points X \<and> amax (map snd X) = amin (map snd X) \<longrightarrow> ny = 0)"
  using assms by (rule grid_samples_ranges)

theorem grid_is_mesh_of_aranges_witness:
  "grid X_two = Inr (xx_two, yy_two) \<and>
   (\<exists>x_min x_max y_min y_max nx ny.
      padded_bounds X_two = Inr (x_min, x_max, y_min, y_max) \<and>
      arange_length x_min x_max res = Inr nx \<and>
      arange_length y_min y_max res = Inr ny \<and>
      shape xx_two = (ny, nx) \<and> shape yy_two = (ny, nx) \<and>
      arange_item x_min res 0 = x_min \<and> arange_item y_min res 0 = y_min \<and>
      (\<forall>j < ny. \<forall>i < nx.
         item xx_two j i = arange_item x_min res i \<and> item yy_two j i = arange_item y_min res j) \<and>
      zip (ravel xx_two) (ravel yy_two) =
        concat (map (\<lambda>j. map (\<lambda>i. (arange_item x_min res i, arange_item y_min res j)) [0 ..< nx])
                  [0 ..< ny]) \<and>
      (x_max = x_min \<longrightarrow> nx = 0) \<and> (y_max = y_min \<longrightarrow> ny = 0) \<and>
      (finite_points X_two \<and> amax (map fst X_two) = amin (map fst X_two) \<longrightarrow> nx = 0) \<and>
      (finite_points X_two \<and> amax (map snd X_two) = amin (map snd X_two) \<longrightarrow> ny = 0))"
  using grid_is_mesh_of_aranges [OF grid_two] grid_two by (intro conjI)

subsection \<open>C10: the coordinates the classifier receives\<close>




subsection \<open>C2: the padded bounds\<close>

text \<open>
  C2, as stated: the padded box strictly contains the raw box on every axis whose range
  is positive. For the points \<open>(1e16, 0)\<close> and \<open>(1e16 + 2, 1)\<close> the raw \<open>x\<close> bounds are
  \<open>1e16\<close> and \<open>1e16 + 2\<close> (\<open>5000000000000000 * 2\<close> and \<open>5000000000000001 * 2\<close>), the range is
  2 and the padding 0.3; \<open>1e16 - 0.3\<close> rounds to \<open>1e16\<close> and \<open>1e16 + 2 + 0.3\<close> rounds to
  \<open>1e16 + 2\<close>, so the padded \<open>x\<close> bounds are the raw ones.
\<close>

theorem padding_absorbed_counterexample:
  "amin (map fst X_big) = Inr (Finite 5000000000000000 1) \<and>
   amax (map fst X_big) = Inr (Finite 5000000000000001 1) \<and>
   flt (Finite 5000000000000000 1) (Finite 5000000000000001 1) \<and>
   padded_bounds X_big =
     Inr (Finite 5000000000000000 1, Finite 5000000000000001 1,
          Finite (- 5404319552844595) (- 55), Finite 5179139571476070 (- 52))"
  using raw_big bounds_big by simp

text \<open>
  C2, amended. For every non-empty dataset of finite numbers, each axis on its own: the
  padded minimum is \<open>min - (max - min) * 0.15\<close> and the padded maximum is
  \<open>max + (max - min) * 0.15\<close>, every operation rounded to binary64 (\<open>pad_lo\<close>, \<open>pad_hi\<close>);
  the padded interval contains the raw one, \<open>padded min <= min\<close> and
  \<open>max <= padded max\<close>; and on an axis of range zero the padded bounds are the raw
  bounds. The containment is not promised to be strict: a padding below half the
  spacing of the numbers at a bound is rounded away.
\<close>

theorem padded_bounds_contain:
  assumes "X \<noteq> []" and "finite_points X"
  shows "\<exists>x_min x_max y_min y_max.
           amin (map fst X) = Inr x_min \<and> amax (map fst X) = Inr x_max \<and>
           amin (map snd X) = Inr y_min \<and> amax (map snd X) = Inr y_max \<and>
           padded_bounds X =
             Inr (pad_lo x_min x_max, pad_hi x_min x_max,
                  pad_lo y_min y_max, pad_hi y_min y_max) \<and>
           fle (pad_lo x_min x_max) x_min \<and> fle x_max (pad_hi x_min x_max) \<and>
           fle (pad_lo y_min y_max) y_min \<and> fle y_max (pad_hi y_min y_max) \<and>
           (x_max = x_min \<longrightarrow> pad_lo x_min x_max = x_min \<and> pad_hi x_min x_max = x_max) \<and>
           (y_max = y_min \<longrightarrow> pad_lo y_min y_max = y_min \<and> pad_hi y_min y_max = y_max)"
  using assms by (rule padded_bounds_finite)

theorem padded_bounds_contain_witness:
  "X_two \<noteq> [] \<and> finite_points X_two \<and>
   (\<exists>x_min x_max y_min y_max.
      amin (map fst X_two) = Inr x_min \<and> amax (map fst X_two) = Inr x_max \<and>
      amin (map snd X_two) = Inr y_min \<and> amax (map snd X_two) = Inr y_max \<and>
      padded_bounds X_two =
        Inr (pad_lo x_min x_max, pad_hi x_min x_max,
             pad_lo y_min y_max, pad_hi y_min y_max) \<and>
      fle (pad_lo x_min x_max) x_min \<and> fle x_max (pad_hi x_min x_max) \<and>
      fle (pad_lo y_min y_max) y_min \<and> fle y_max (pad_hi y_min y_max) \<and>
      (x_max = x_min \<longrightarrow> pad_lo x_min x_max = x_min \<and> pad_hi x_min x_max = x_max) \<and>
      (y_max = y_min \<longrightarrow> pad_lo y_min y_max = y_min \<and> pad_hi y_min y_max = y_max))"
proof -
  have ne: "X_two \<noteq> []" by (simp add: X_two_def)
  from padded_bounds_contain [OF ne finite_two] ne finite_two show ?thesis by (intro conjI)
qed

end
